theory Spec2Isabelle
  imports Complex_Main
begin

section \<open>Values, arrays and the library operations the script calls\<close>

text \<open>
  The script \<^verbatim>\<open>extract_qsm_per_region.py\<close> is straight-line code over NumPy arrays.
  A floating-point voxel is either NaN or a number; numbers are modelled by exact
  rationals, so rounding and the two infinities are outside the model. Volumes are
  three-dimensional. The repository also holds an older copy of the script (no erosion, one
  pair of fixed substantia-nigra masks, a mean for WMH, a mandatory lesion mask); it is not
  the script modelled here.
\<close>

datatype fval = NaN | Fin rat

datatype error = FileNotFoundError | ImageFileError | IndexError | ValueError | KeyError

text \<open>A three-dimensional array: its shape and its element at every index inside it.\<close>

record 'a ndarray =
  shape :: "nat \<times> nat \<times> nat"
  vox :: "nat \<times> nat \<times> nat \<Rightarrow> 'a"

text \<open>A two-dimensional array, the type of one axial slice \<^verbatim>\<open>mask[:, :, z]\<close>.\<close>

record 'a ndarray2 =
  shape2 :: "nat \<times> nat"
  pix :: "nat \<times> nat \<Rightarrow> 'a"

text \<open>\<^verbatim>\<open>np.isnan\<close>, and the comparisons \<^verbatim>\<open>==\<close> and \<^verbatim>\<open>> 0\<close> on floats: every
  comparison with NaN is false.\<close>

fun isnan :: "fval \<Rightarrow> bool" where
  "isnan NaN = True"
| "isnan (Fin q) = False"

fun feq :: "fval \<Rightarrow> fval \<Rightarrow> bool" where
  "feq (Fin a) (Fin b) = (a = b)"
| "feq _ _ = False"

fun fgt :: "fval \<Rightarrow> fval \<Rightarrow> bool" where
  "fgt (Fin a) (Fin b) = (b < a)"
| "fgt _ _ = False"

text \<open>Float subtraction: NaN as soon as one operand is NaN.\<close>

fun fsub :: "fval \<Rightarrow> fval \<Rightarrow> fval" where
  "fsub (Fin a) (Fin b) = Fin (a - b)"
| "fsub _ _ = NaN"

text \<open>The index tuples of an array of the given shape, in C (row-major) order, the order in
  which boolean-mask indexing gathers.\<close>

definition indices :: "nat \<times> nat \<times> nat \<Rightarrow> (nat \<times> nat \<times> nat) list" where
  "indices s = (case s of (X, Y, Z) \<Rightarrow> [(i, j, k). i \<leftarrow> [0..<X], j \<leftarrow> [0..<Y], k \<leftarrow> [0..<Z]])"

text \<open>An elementwise operation with a scalar, such as \<^verbatim>\<open>seg_data == seg_id\<close>,
  \<^verbatim>\<open>sn_left_data > 0\<close> or \<^verbatim>\<open>.astype(np.uint8)\<close> (a boolean becomes 0 or 1, so
  the eight bits never overflow and the result is modelled by a natural number).\<close>

definition np_map :: "('a \<Rightarrow> 'b) \<Rightarrow> 'a ndarray \<Rightarrow> 'b ndarray" where
  "np_map f a = \<lparr>shape = shape a, vox = (\<lambda>p. f (vox a p))\<rparr>"

definition astype_uint8 :: "bool \<Rightarrow> nat" where
  "astype_uint8 b = (if b then 1 else 0)"

text \<open>Boolean-mask indexing \<^verbatim>\<open>a[m]\<close> of a three-dimensional array by a three-dimensional
  mask. NumPy turns the mask into the indices of its true elements and, before it gathers
  anything, compares the mask's length with the array's along each axis, unless the mask's
  length there is 0: it raises IndexError when along some axis the mask's length is neither 0
  nor the array's. So a mask with an axis of length 0, which has no element, is accepted by
  an array of another shape as long as its other axes fit, and selects nothing. Otherwise
  the result is the one-dimensional array of the selected elements. An array of four
  dimensions, which NumPy lets a three-dimensional mask index along its leading axes, is
  outside the model.\<close>

definition axis_fits :: "nat \<Rightarrow> nat \<Rightarrow> bool" where
  "axis_fits m n = (m = 0 \<or> m = n)"

definition mask_fits :: "nat \<times> nat \<times> nat \<Rightarrow> nat \<times> nat \<times> nat \<Rightarrow> bool" where
  "mask_fits sm sa =
     (case sm of (X', Y', Z') \<Rightarrow> case sa of (X, Y, Z) \<Rightarrow>
        axis_fits X' X \<and> axis_fits Y' Y \<and> axis_fits Z' Z)"

definition bool_index :: "'a ndarray \<Rightarrow> bool ndarray \<Rightarrow> error + 'a list" where
  "bool_index a m =
     (if \<not> mask_fits (shape m) (shape a) then Inl IndexError
      else Inr (map (vox a) (filter (vox m) (indices (shape m)))))"

text \<open>Broadcasting of the two operands of \<^verbatim>\<open>np.logical_or\<close> and \<^verbatim>\<open>np.logical_and\<close>:
  along each axis the lengths agree or one of them is 1; otherwise ValueError.\<close>

definition bdim :: "nat \<Rightarrow> nat \<Rightarrow> nat option" where
  "bdim m n = (if m = n then Some m else if m = 1 then Some n else if n = 1 then Some m else None)"

definition bpos :: "nat \<Rightarrow> nat \<Rightarrow> nat" where
  "bpos m i = (if m = 1 then 0 else i)"

definition broadcast2 ::
  "('a \<Rightarrow> 'b \<Rightarrow> 'c) \<Rightarrow> 'a ndarray \<Rightarrow> 'b ndarray \<Rightarrow> error + 'c ndarray" where
  "broadcast2 f a b =
     (case (shape a, shape b) of ((X, Y, Z), (X', Y', Z')) \<Rightarrow>
        (case (bdim X X', bdim Y Y', bdim Z Z') of
           (Some x, Some y, Some z) \<Rightarrow>
             Inr \<lparr>shape = (x, y, z),
                  vox = (\<lambda>(i, j, k). f (vox a (bpos X i, bpos Y j, bpos Z k))
                                         (vox b (bpos X' i, bpos Y' j, bpos Z' k)))\<rparr>
         | _ \<Rightarrow> Inl ValueError))"

definition np_logical_or :: "bool ndarray \<Rightarrow> bool ndarray \<Rightarrow> error + bool ndarray" where
  "np_logical_or = broadcast2 (\<or>)"

definition np_logical_and :: "bool ndarray \<Rightarrow> bool ndarray \<Rightarrow> error + bool ndarray" where
  "np_logical_and = broadcast2 (\<and>)"

text \<open>\<^verbatim>\<open>np.median\<close> of a one-dimensional float array: NaN for an empty array and for one
  that holds a NaN; otherwise the middle element of the sorted values, or the mean of the
  two middle ones when their number is even.\<close>

definition middle :: "rat list \<Rightarrow> rat" where
  "middle s =
     (let n = length s
      in if odd n then s ! (n div 2) else (s ! (n div 2 - 1) + s ! (n div 2)) / 2)"

fun fins :: "fval list \<Rightarrow> rat list" where
  "fins [] = []"
| "fins (NaN # vs) = fins vs"
| "fins (Fin q # vs) = q # fins vs"

definition np_median :: "fval list \<Rightarrow> fval" where
  "np_median vs =
     (if vs = [] \<or> NaN \<in> set vs then NaN else Fin (middle (sort (fins vs))))"

subsection \<open>SciPy's binary erosion of one slice\<close>

text \<open>\<^verbatim>\<open>generate_binary_structure(2, 1)\<close>, the default structuring element of
  \<^verbatim>\<open>binary_erosion\<close> on a two-dimensional input: the centre and its four neighbours.\<close>

definition generate_binary_structure :: "bool list list" where
  "generate_binary_structure =
     [[False, True, False],
      [True, True, True],
      [False, True, False]]"

text \<open>The input read at a position that may lie outside it, where it has the border value.\<close>

definition padded :: "bool ndarray2 \<Rightarrow> bool \<Rightarrow> int \<Rightarrow> int \<Rightarrow> bool" where
  "padded inp border_value p q =
     (case shape2 inp of (X, Y) \<Rightarrow>
        if 0 \<le> p \<and> p < int X \<and> 0 \<le> q \<and> q < int Y then pix inp (nat p, nat q)
        else border_value)"

text \<open>\<^verbatim>\<open>binary_erosion(input)\<close> with its defaults (one iteration, border value 0, origin 0):
  an element of the output is set when the input is set under every set element of the
  structuring element centred there.\<close>

definition binary_erosion :: "bool ndarray2 \<Rightarrow> bool ndarray2" where
  "binary_erosion inp =
     \<lparr>shape2 = shape2 inp,
      pix = (\<lambda>(i, j).
        list_all (\<lambda>a. list_all (\<lambda>b.
            generate_binary_structure ! a ! b \<longrightarrow>
              padded inp False (int i + int a - 1) (int j + int b - 1)) [0..<3]) [0..<3])\<rparr>"

subsection \<open>Slices, dictionaries, files\<close>

definition zeros_like :: "bool ndarray \<Rightarrow> bool ndarray" where
  "zeros_like a = \<lparr>shape = shape a, vox = (\<lambda>p. False)\<rparr>"

definition get_slice :: "'a ndarray \<Rightarrow> nat \<Rightarrow> 'a ndarray2" where
  "get_slice a z = (case shape a of (X, Y, Z) \<Rightarrow> \<lparr>shape2 = (X, Y), pix = (\<lambda>(i, j). vox a (i, j, z))\<rparr>)"

text \<open>The assignment \<^verbatim>\<open>a[:, :, z] = s\<close>. The script assigns the erosion of the same slice,
  which has the slice's shape, so the assignment never broadcasts.\<close>

definition set_slice :: "'a ndarray \<Rightarrow> nat \<Rightarrow> 'a ndarray2 \<Rightarrow> 'a ndarray" where
  "set_slice a z s = a\<lparr>vox := (\<lambda>(i, j, k). if k = z then pix s (i, j) else vox a (i, j, k))\<rparr>"

text \<open>A Python dictionary keeps its keys in insertion order; storing under a key it already
  has replaces the value in place.\<close>

fun dict_set :: "('k \<times> 'v) list \<Rightarrow> 'k \<Rightarrow> 'v \<Rightarrow> ('k \<times> 'v) list" where
  "dict_set [] k v = [(k, v)]"
| "dict_set ((k', v') # d) k v = (if k' = k then (k', v) # d else (k', v') # dict_set d k v)"

definition dict_get :: "('k \<times> 'v) list \<Rightarrow> 'k \<Rightarrow> error + 'v" where
  "dict_get d k = (case map_of d k of None \<Rightarrow> Inl KeyError | Some v \<Rightarrow> Inr v)"

text \<open>A cell of a CSV line, and a file as the script's two readers see it: the image
  nibabel decodes from it, if any, and the CSV lines written to it.\<close>

datatype cell = S string | I int | F fval

record fentry =
  image :: "fval ndarray option"
  rows :: "cell list list"

type_synonym fsys = "string \<rightharpoonup> fentry"

definition isfile :: "fsys \<Rightarrow> string \<Rightarrow> bool" where
  "isfile fs p = (fs p \<noteq> None)"

text \<open>An array has no element outside its shape, while the element function of the model
  is total. A decoded image is therefore given NaN at every index outside its shape, so that
  a comparison made there is false and a mask built from one volume selects nothing outside
  that volume. No operation of the script reads an array outside its shape.\<close>

definition inside :: "nat \<times> nat \<times> nat \<Rightarrow> nat \<times> nat \<times> nat \<Rightarrow> bool" where
  "inside s p = (case s of (X, Y, Z) \<Rightarrow> case p of (i, j, k) \<Rightarrow> i < X \<and> j < Y \<and> k < Z)"

definition clip :: "fval ndarray \<Rightarrow> fval ndarray" where
  "clip v = \<lparr>shape = shape v, vox = (\<lambda>p. if inside (shape v) p then vox v p else NaN)\<rparr>"

text \<open>\<^verbatim>\<open>nib.load(path)\<close> followed by \<^verbatim>\<open>get_fdata()\<close> or \<^verbatim>\<open>np.asarray(img.dataobj)\<close>.\<close>

definition nib_load :: "fsys \<Rightarrow> string \<Rightarrow> error + fval ndarray" where
  "nib_load fs p =
     (case fs p of
        None \<Rightarrow> Inl FileNotFoundError
      | Some f \<Rightarrow> (case image f of None \<Rightarrow> Inl ImageFileError | Some v \<Rightarrow> Inr (clip v)))"

section \<open>The script\<close>

record args =
  arg_id :: int
  ses :: int
  qsm_in_T1 :: string
  segmentation :: string
  qsm_in_mni152 :: string
  lesions_mask :: "string option"
  sn_mask_left :: string
  sn_mask_right :: string
  output_csv :: string

definition regions_dic :: "(int \<times> string) list" where
  "regions_dic =
     [(10, ''Left-Thalamus-Proper''),
      (11, ''Left-Caudate''),
      (12, ''Left-Putamen''),
      (13, ''Left-Pallidum''),
      (17, ''Left-Hippocampus''),
      (18, ''Left-Amygdala''),
      (26, ''Left-Accumbens-area''),
      (49, ''Right-Thalamus-Proper''),
      (50, ''Right-Caudate''),
      (51, ''Right-Putamen''),
      (52, ''Right-Pallidum''),
      (53, ''Right-Hippocampus''),
      (54, ''Right-Amygdala''),
      (58, ''Right-Accumbens-area'')]"

text \<open>\<^verbatim>\<open>x[~np.isnan(x)]\<close> and \<^verbatim>\<open>np.median(x) if len(x) > 0 else np.nan\<close>.\<close>

definition drop_nan :: "fval list \<Rightarrow> fval list" where
  "drop_nan vs = filter (\<lambda>v. \<not> isnan v) vs"

definition median_or_nan :: "fval list \<Rightarrow> fval" where
  "median_or_nan vs = (if length vs > 0 then np_median vs else NaN)"

text \<open>Lines 50 to 52: the erosion of every axial slice, written into a mask that starts
  all false.\<close>

definition erode_slices :: "bool ndarray \<Rightarrow> bool ndarray" where
  "erode_slices msk =
     (case shape msk of (X, Y, Z) \<Rightarrow>
        fold (\<lambda>z eroded_mask. set_slice eroded_mask z (binary_erosion (get_slice msk z)))
          [0..<Z] (zeros_like msk))"

text \<open>Lines 47 to 55: the loop over the keys of \<^verbatim>\<open>regions_dic\<close>.\<close>

fun base_regions ::
  "fval ndarray \<Rightarrow> fval ndarray \<Rightarrow> int list \<Rightarrow> (string \<times> fval) list \<Rightarrow> error + (string \<times> fval) list"
where
  "base_regions seg_data qsm_data [] qsm_by_region = Inr qsm_by_region"
| "base_regions seg_data qsm_data (seg_id # ids) qsm_by_region =
     (let mask = np_map (\<lambda>v. feq v (Fin (of_int seg_id))) seg_data;
          eroded_mask = erode_slices mask
      in case bool_index qsm_data eroded_mask of
           Inl e \<Rightarrow> Inl e
         | Inr qsm_values \<Rightarrow>
             (let qsm_values = drop_nan qsm_values;
                  m = median_or_nan qsm_values
              in case dict_get regions_dic seg_id of
                   Inl e \<Rightarrow> Inl e
                 | Inr name \<Rightarrow>
                     base_regions seg_data qsm_data ids (dict_set qsm_by_region name m)))"

text \<open>Lines 70 to 74 and 77 to 81, the same statements for the left and the right mask.\<close>

definition sn_region :: "fval ndarray \<Rightarrow> fval ndarray \<Rightarrow> error + fval" where
  "sn_region sn_data qsm_mni_data =
     (let mask_sn = np_map (\<lambda>v. fgt v (Fin 0)) sn_data
      in case bool_index qsm_mni_data mask_sn of
           Inl e \<Rightarrow> Inl e
         | Inr qsm_values_sn \<Rightarrow>
             (let qsm_values_sn = drop_nan qsm_values_sn;
                  qsm_values_sn = filter (\<lambda>v. fgt v (Fin 0)) qsm_values_sn
              in Inr (median_or_nan qsm_values_sn)))"

text \<open>Lines 90 to 113, the body of the branch taken when the lesion mask is there.\<close>

definition lesion_regions ::
  "fval ndarray \<Rightarrow> fval ndarray \<Rightarrow> fval ndarray \<Rightarrow> (string \<times> fval) list \<Rightarrow> error + (string \<times> fval) list"
where
  "lesion_regions seg_data qsm_data wmh_data qsm_by_region =
     (case bool_index qsm_data (np_map (\<lambda>v. feq v (Fin 1)) wmh_data) of
        Inl e \<Rightarrow> Inl e
      | Inr qsm_values_wmh \<Rightarrow>
     (let qsm_values_wmh = drop_nan qsm_values_wmh;
          qsm_by_region = dict_set qsm_by_region ''WMH'' (median_or_nan qsm_values_wmh)
      in case np_logical_or (np_map (\<lambda>v. feq v (Fin 2)) seg_data)
                            (np_map (\<lambda>v. feq v (Fin 41)) seg_data) of
        Inl e \<Rightarrow> Inl e
      | Inr wm \<Rightarrow>
     (let wm_mask_data = np_map astype_uint8 wm
      in case bool_index qsm_data (np_map (\<lambda>u. u = 1) wm_mask_data) of
        Inl e \<Rightarrow> Inl e
      | Inr qsm_values_in_wm \<Rightarrow>
     (let qsm_values_in_wm = drop_nan qsm_values_in_wm;
          qsm_by_region = dict_set qsm_by_region ''WM'' (median_or_nan qsm_values_in_wm)
      in case np_logical_and (np_map (\<lambda>u. u = 1) wm_mask_data)
                             (np_map (\<lambda>v. feq v (Fin 0)) wmh_data) of
        Inl e \<Rightarrow> Inl e
      | Inr wm_nl \<Rightarrow>
     (let wm_without_lesions_mask = np_map astype_uint8 wm_nl
      in case bool_index qsm_data (np_map (\<lambda>u. u = 1) wm_without_lesions_mask) of
        Inl e \<Rightarrow> Inl e
      | Inr qsm_values_in_wm_without_lesions \<Rightarrow>
     (let qsm_values_in_wm_without_lesions = drop_nan qsm_values_in_wm_without_lesions;
          qsm_by_region = dict_set qsm_by_region ''WM_no_lesions''
                            (median_or_nan qsm_values_in_wm_without_lesions)
      in case dict_get qsm_by_region ''WM'' of
        Inl e \<Rightarrow> Inl e
      | Inr wm_v \<Rightarrow>
     (case dict_get qsm_by_region ''WMH'' of
        Inl e \<Rightarrow> Inl e
      | Inr wmh_v \<Rightarrow>
     (let qsm_by_region = dict_set qsm_by_region ''Diff-WM'' (fsub wm_v wmh_v)
      in case dict_get qsm_by_region ''WM_no_lesions'' of
        Inl e \<Rightarrow> Inl e
      | Inr wmnl_v \<Rightarrow>
     (case dict_get qsm_by_region ''WMH'' of
        Inl e \<Rightarrow> Inl e
      | Inr wmh_v' \<Rightarrow>
          Inr (dict_set qsm_by_region ''Diff-WM-no-lesions'' (fsub wmnl_v wmh_v')))))))))))"

text \<open>Lines 40 to 113: everything up to the finished dictionary \<^verbatim>\<open>qsm_by_region\<close>.\<close>

definition extract_qsm :: "args \<Rightarrow> fsys \<Rightarrow> error + (string \<times> fval) list" where
  "extract_qsm a fs =
     (case nib_load fs (segmentation a) of Inl e \<Rightarrow> Inl e | Inr seg_data \<Rightarrow>
     (case nib_load fs (qsm_in_T1 a) of Inl e \<Rightarrow> Inl e | Inr qsm_data \<Rightarrow>
     (case base_regions seg_data qsm_data (map fst regions_dic) [] of
        Inl e \<Rightarrow> Inl e | Inr qsm_by_region \<Rightarrow>
     (case nib_load fs (sn_mask_left a) of Inl e \<Rightarrow> Inl e | Inr sn_left_data \<Rightarrow>
     (case nib_load fs (sn_mask_right a) of Inl e \<Rightarrow> Inl e | Inr sn_right_data \<Rightarrow>
     (case nib_load fs (qsm_in_mni152 a) of Inl e \<Rightarrow> Inl e | Inr qsm_mni_data \<Rightarrow>
     (case sn_region sn_left_data qsm_mni_data of Inl e \<Rightarrow> Inl e | Inr sn_l \<Rightarrow>
     (let qsm_by_region = dict_set qsm_by_region ''SN_L'' sn_l
      in case sn_region sn_right_data qsm_mni_data of Inl e \<Rightarrow> Inl e | Inr sn_r \<Rightarrow>
     (let qsm_by_region = dict_set qsm_by_region ''SN_R'' sn_r
      in case lesions_mask a of
           None \<Rightarrow> Inr qsm_by_region
         | Some p \<Rightarrow>
             if p \<noteq> [] \<and> isfile fs p then
               (case nib_load fs p of Inl e \<Rightarrow> Inl e | Inr wmh_data \<Rightarrow>
                  lesion_regions seg_data qsm_data wmh_data qsm_by_region)
             else Inr qsm_by_region)))))))))"

text \<open>Lines 118 to 128: the header and the row, and the append to the output file, which is
  taken to open.\<close>

definition header :: "(string \<times> fval) list \<Rightarrow> cell list" where
  "header qsm_by_region = [S ''subject'', S ''session''] @ map S (map fst qsm_by_region)"

definition row :: "args \<Rightarrow> (string \<times> fval) list \<Rightarrow> cell list" where
  "row a qsm_by_region = [I (arg_id a), I (ses a)] @ map F (map snd qsm_by_region)"

definition append_rows :: "fsys \<Rightarrow> string \<Rightarrow> cell list list \<Rightarrow> fsys" where
  "append_rows fs p ls =
     (case fs p of
        None \<Rightarrow> fs(p \<mapsto> \<lparr>image = None, rows = ls\<rparr>)
      | Some f \<Rightarrow> fs(p \<mapsto> f\<lparr>rows := rows f @ ls\<rparr>))"

definition write_csv :: "args \<Rightarrow> (string \<times> fval) list \<Rightarrow> fsys \<Rightarrow> fsys" where
  "write_csv a qsm_by_region fs =
     (let outfile = output_csv a;
          file_exists = isfile fs outfile
      in append_rows fs outfile
           ((if \<not> file_exists then [header qsm_by_region] else []) @ [row a qsm_by_region]))"

definition main :: "args \<Rightarrow> fsys \<Rightarrow> error + fsys" where
  "main a fs =
     (case extract_qsm a fs of
        Inl e \<Rightarrow> Inl e
      | Inr qsm_by_region \<Rightarrow> Inr (write_csv a qsm_by_region fs))"

section \<open>The specification's vocabulary\<close>

text \<open>The definitions of this section follow the specification's words (its sections 4.1 to
  4.3), not the script; the theorems below compare the script with them. A mask is the
  predicate that selects its voxels.\<close>

type_synonym voxel = "nat \<times> nat \<times> nat"

definition equals :: "fval ndarray \<Rightarrow> rat \<Rightarrow> voxel \<Rightarrow> bool" where
  "equals volume c = (\<lambda>p. vox volume p = Fin c)"

definition isAnyOf :: "fval ndarray \<Rightarrow> rat list \<Rightarrow> voxel \<Rightarrow> bool" where
  "isAnyOf volume cs = (\<lambda>p. list_ex (\<lambda>c. equals volume c p) cs)"

text \<open>A voxel survives the erosion when it and its four neighbours in the same axial slice
  are selected; a neighbour outside the volume counts as not selected.\<close>

definition erode2D :: "nat \<times> nat \<times> nat \<Rightarrow> (voxel \<Rightarrow> bool) \<Rightarrow> voxel \<Rightarrow> bool" where
  "erode2D s m =
     (\<lambda>(i, j, k). case s of (X, Y, Z) \<Rightarrow>
        m (i, j, k) \<and>
        0 < i \<and> m (i - 1, j, k) \<and> i + 1 < X \<and> m (i + 1, j, k) \<and>
        0 < j \<and> m (i, j - 1, k) \<and> j + 1 < Y \<and> m (i, j + 1, k))"

definition positiveOnly :: "(voxel \<Rightarrow> bool) \<Rightarrow> fval ndarray \<Rightarrow> voxel \<Rightarrow> bool" where
  "positiveOnly m scalar_volume = (\<lambda>p. m p \<and> fgt (vox scalar_volume p) (Fin 0))"

definition finiteValues :: "fval ndarray \<Rightarrow> (voxel \<Rightarrow> bool) \<Rightarrow> rat list" where
  "finiteValues scalar_volume m =
     fins (map (vox scalar_volume) (filter m (indices (shape scalar_volume))))"

definition median :: "rat list \<Rightarrow> fval" where
  "median vals = (if vals = [] then NaN else Fin (middle (sort vals)))"

definition mean :: "rat list \<Rightarrow> fval" where
  "mean vals = (if vals = [] then NaN else Fin (sum_list vals / of_nat (length vals)))"

text \<open>The rule of each region (section 4.3). The rule for white matter without lesions is
  the one of line 107 of the script, which keeps the white-matter voxels where the lesion
  mask is 0.\<close>

definition base_rule :: "fval ndarray \<Rightarrow> fval ndarray \<Rightarrow> int \<Rightarrow> fval" where
  "base_rule labelVolume qsm code =
     median (finiteValues qsm (erode2D (shape labelVolume) (equals labelVolume (of_int code))))"

definition sn_rule :: "fval ndarray \<Rightarrow> fval ndarray \<Rightarrow> fval" where
  "sn_rule sn_mask mni_qsm =
     median (finiteValues mni_qsm (positiveOnly (\<lambda>p. fgt (vox sn_mask p) (Fin 0)) mni_qsm))"

definition wmh_rule :: "fval ndarray \<Rightarrow> fval ndarray \<Rightarrow> fval" where
  "wmh_rule lesion_mask qsm = median (finiteValues qsm (equals lesion_mask 1))"

definition wm_rule :: "fval ndarray \<Rightarrow> fval ndarray \<Rightarrow> fval" where
  "wm_rule labelVolume qsm = median (finiteValues qsm (isAnyOf labelVolume [2, 41]))"

definition wm_no_lesions_rule :: "fval ndarray \<Rightarrow> fval ndarray \<Rightarrow> fval ndarray \<Rightarrow> fval" where
  "wm_no_lesions_rule labelVolume lesion_mask qsm =
     median (finiteValues qsm (\<lambda>p. isAnyOf labelVolume [2, 41] p \<and> equals lesion_mask 0 p))"

text \<open>The ordered result (section 4.4): the base catalog and the two substantia-nigra
  regions, then the five lesion-dependent entries.\<close>

definition core_result ::
  "fval ndarray \<Rightarrow> fval ndarray \<Rightarrow> fval ndarray \<Rightarrow> fval ndarray \<Rightarrow> fval ndarray \<Rightarrow> (string \<times> fval) list"
where
  "core_result seg qsm snl snr mni =
     map (\<lambda>(code, name). (name, base_rule seg qsm code)) regions_dic @
     [(''SN_L'', sn_rule snl mni), (''SN_R'', sn_rule snr mni)]"

definition lesion_result ::
  "fval ndarray \<Rightarrow> fval ndarray \<Rightarrow> fval ndarray \<Rightarrow> (string \<times> fval) list"
where
  "lesion_result seg qsm les =
     [(''WMH'', wmh_rule les qsm),
      (''WM'', wm_rule seg qsm),
      (''WM_no_lesions'', wm_no_lesions_rule seg les qsm),
      (''Diff-WM'', fsub (wm_rule seg qsm) (wmh_rule les qsm)),
      (''Diff-WM-no-lesions'', fsub (wm_no_lesions_rule seg les qsm) (wmh_rule les qsm))]"

text \<open>The condition of line 86, and the two possible tails of the column list.\<close>

definition lesions_given :: "args \<Rightarrow> fsys \<Rightarrow> bool" where
  "lesions_given a fs = (case lesions_mask a of None \<Rightarrow> False | Some p \<Rightarrow> p \<noteq> [] \<and> isfile fs p)"

definition base_names :: "string list" where
  "base_names =
     [''Left-Thalamus-Proper'', ''Left-Caudate'', ''Left-Putamen'', ''Left-Pallidum'',
      ''Left-Hippocampus'', ''Left-Amygdala'', ''Left-Accumbens-area'',
      ''Right-Thalamus-Proper'', ''Right-Caudate'', ''Right-Putamen'', ''Right-Pallidum'',
      ''Right-Hippocampus'', ''Right-Amygdala'', ''Right-Accumbens-area'']"

definition lesion_names :: "string list" where
  "lesion_names = [''WMH'', ''WM'', ''WM_no_lesions'', ''Diff-WM'', ''Diff-WM-no-lesions'']"

text \<open>The value stored under a region name by a run, if the run succeeded and stored one.\<close>

definition lookup_result :: "error + (string \<times> fval) list \<Rightarrow> string \<Rightarrow> fval option" where
  "lookup_result r name = (case r of Inl e \<Rightarrow> None | Inr res \<Rightarrow> map_of res name)"

text \<open>The lines of a file after a run, if the run succeeded and the file is there.\<close>

definition lines_after :: "error + fsys \<Rightarrow> string \<Rightarrow> cell list list option" where
  "lines_after r p = (case r of Inl e \<Rightarrow> None | Inr fs \<Rightarrow> map_option rows (fs p))"

text \<open>A second run on the files the first one left.\<close>

definition then_run :: "error + fsys \<Rightarrow> args \<Rightarrow> error + fsys" where
  "then_run r a = (case r of Inl e \<Rightarrow> Inl e | Inr fs \<Rightarrow> main a fs)"

section \<open>A small data set\<close>

text \<open>A segmentation of shape 3 by 4 by 2 whose first axial slice is all label 10 and whose
  second is white matter (labels 2 and 41); a susceptibility map with one NaN; a lesion mask
  with three lesioned voxels and one with none; four template-space voxels that hold a
  positive, a negative, a zero and another positive value.\<close>

definition demo_seg :: "fval ndarray" where
  "demo_seg = clip \<lparr>shape = (3, 4, 2),
     vox = (\<lambda>(i, j, k). if k = 0 then Fin 10 else if j < 2 then Fin 2 else Fin 41)\<rparr>"

definition demo_qsm :: "fval ndarray" where
  "demo_qsm = clip \<lparr>shape = (3, 4, 2),
     vox = (\<lambda>(i, j, k). if (i, j, k) = (2, 3, 1) then NaN else Fin (of_nat (4 * i + j + k)))\<rparr>"

definition demo_lesions :: "fval ndarray" where
  "demo_lesions = clip \<lparr>shape = (3, 4, 2),
     vox = (\<lambda>(i, j, k). if k = 1 \<and> (i = 0 \<and> j < 2 \<or> i = 1 \<and> j = 3) then Fin 1 else Fin 0)\<rparr>"

definition demo_no_lesions :: "fval ndarray" where
  "demo_no_lesions = clip \<lparr>shape = (3, 4, 2), vox = (\<lambda>p. Fin 0)\<rparr>"

definition demo_mni :: "fval ndarray" where
  "demo_mni = clip \<lparr>shape = (2, 2, 1),
     vox = (\<lambda>(i, j, k). if (i, j) = (0, 0) then Fin 3 else if (i, j) = (0, 1) then Fin (- 1)
                        else if (i, j) = (1, 0) then Fin 0 else Fin 7)\<rparr>"

definition demo_sn_left :: "fval ndarray" where
  "demo_sn_left = clip \<lparr>shape = (2, 2, 1), vox = (\<lambda>p. Fin 1)\<rparr>"

definition demo_sn_right :: "fval ndarray" where
  "demo_sn_right = clip \<lparr>shape = (2, 2, 1),
     vox = (\<lambda>(i, j, k). if i + j = 1 then Fin (1 / 2) else Fin 0)\<rparr>"

text \<open>A volume with no voxel, of shape 0 by 4 by 2, and a pair of volumes one voxel thick
  along the first axis, all white matter.\<close>

definition demo_empty :: "fval ndarray" where
  "demo_empty = clip \<lparr>shape = (0, 4, 2), vox = (\<lambda>p. Fin 0)\<rparr>"

definition thin_seg :: "fval ndarray" where
  "thin_seg = clip \<lparr>shape = (1, 4, 2), vox = (\<lambda>p. Fin 2)\<rparr>"

definition thin_qsm :: "fval ndarray" where
  "thin_qsm = clip \<lparr>shape = (1, 4, 2), vox = (\<lambda>(i, j, k). Fin (of_nat (j + k)))\<rparr>"

definition demo_fs :: fsys where
  "demo_fs =
     [''aseg.mgz'' \<mapsto> \<lparr>image = Some demo_seg, rows = []\<rparr>,
      ''qsm.nii'' \<mapsto> \<lparr>image = Some demo_qsm, rows = []\<rparr>,
      ''mni.nii'' \<mapsto> \<lparr>image = Some demo_mni, rows = []\<rparr>,
      ''snl.nii'' \<mapsto> \<lparr>image = Some demo_sn_left, rows = []\<rparr>,
      ''snr.nii'' \<mapsto> \<lparr>image = Some demo_sn_right, rows = []\<rparr>,
      ''wmh.nii'' \<mapsto> \<lparr>image = Some demo_lesions, rows = []\<rparr>,
      ''zero.nii'' \<mapsto> \<lparr>image = Some demo_no_lesions, rows = []\<rparr>,
      ''empty.nii'' \<mapsto> \<lparr>image = Some demo_empty, rows = []\<rparr>,
      ''thin_aseg.mgz'' \<mapsto> \<lparr>image = Some thin_seg, rows = []\<rparr>,
      ''thin_qsm.nii'' \<mapsto> \<lparr>image = Some thin_qsm, rows = []\<rparr>]"

definition demo_args :: args where
  "demo_args =
     \<lparr>arg_id = 1001, ses = 2, qsm_in_T1 = ''qsm.nii'', segmentation = ''aseg.mgz'',
      qsm_in_mni152 = ''mni.nii'', lesions_mask = Some ''wmh.nii'',
      sn_mask_left = ''snl.nii'', sn_mask_right = ''snr.nii'', output_csv = ''out.csv''\<rparr>"

definition demo_args_zero :: args where
  "demo_args_zero = demo_args\<lparr>lesions_mask := Some ''zero.nii''\<rparr>"

definition demo_args_none :: args where
  "demo_args_none = demo_args\<lparr>lesions_mask := None\<rparr>"

definition demo_args_missing :: args where
  "demo_args_missing = demo_args\<lparr>lesions_mask := Some ''absent.nii''\<rparr>"

definition demo_args_bad_qsm :: args where
  "demo_args_bad_qsm = demo_args\<lparr>qsm_in_T1 := ''mni.nii''\<rparr>"

definition demo_args_bad_lesions :: args where
  "demo_args_bad_lesions = demo_args\<lparr>lesions_mask := Some ''snl.nii''\<rparr>"

definition demo_args_empty_seg :: args where
  "demo_args_empty_seg = demo_args_none\<lparr>segmentation := ''empty.nii''\<rparr>"

definition demo_args_empty_lesions :: args where
  "demo_args_empty_lesions = demo_args\<lparr>lesions_mask := Some ''empty.nii''\<rparr>"

definition demo_args_thin :: args where
  "demo_args_thin =
     demo_args\<lparr>segmentation := ''thin_aseg.mgz'', qsm_in_T1 := ''thin_qsm.nii'',
               lesions_mask := Some ''empty.nii''\<rparr>"

section \<open>Auxiliary facts\<close>

subsection \<open>Indices and the slice-wise erosion\<close>

lemma set_indices: "set (indices (X, Y, Z)) = {(i, j, k). i < X \<and> j < Y \<and> k < Z}"
  by (force simp: indices_def)

lemma shape_fold_set_slice:
  "shape (fold (\<lambda>z em. set_slice em z (g z)) zs em0) = shape em0"
  by (induction zs arbitrary: em0) (simp_all add: set_slice_def)

lemma vox_fold_set_slice:
  "vox (fold (\<lambda>z em. set_slice em z (g z)) [0..<n] em0) (i, j, k) =
     (if k < n then pix (g k) (i, j) else vox em0 (i, j, k))"
  by (induction n) (auto simp: set_slice_def)

lemma shape_erode_slices: "shape (erode_slices m) = shape m"
  by (cases "shape m") (simp add: erode_slices_def shape_fold_set_slice zeros_like_def)

lemma upt_0_3: "[0..<3] = [0, 1, 2]"
  by (simp add: numeral_3_eq_3 upt_rec)

lemma padded_nat:
  "shape2 inp = (X, Y) \<Longrightarrow>
   padded inp False (int i + d - 1) (int j + e - 1) =
     (1 \<le> int i + d \<and> int i + d \<le> int X \<and> 1 \<le> int j + e \<and> int j + e \<le> int Y \<and>
      pix inp (nat (int i + d - 1), nat (int j + e - 1)))"
  by (auto simp: padded_def)

lemma pix_binary_erosion:
  assumes "shape2 inp = (X, Y)"
  shows "pix (binary_erosion inp) (i, j) =
     (pix inp (i, j) \<and>
      0 < i \<and> pix inp (i - 1, j) \<and> i + 1 < X \<and> pix inp (i + 1, j) \<and>
      0 < j \<and> pix inp (i, j - 1) \<and> j + 1 < Y \<and> pix inp (i, j + 1))"
proof -
  have n1: "nat (int i - 1) = i - 1" "nat (int j - 1) = j - 1" by simp_all
  have n2: "nat (1 + int i) = Suc i" "nat (1 + int j) = Suc j" by simp_all
  show ?thesis
    unfolding binary_erosion_def generate_binary_structure_def upt_0_3
    using n1 n2 by (simp add: padded_nat[OF assms]) (auto simp: Suc_le_eq)
qed

lemma vox_erode_slices:
  "shape m = (X, Y, Z) \<Longrightarrow> k < Z \<Longrightarrow>
   vox (erode_slices m) (i, j, k) = erode2D (X, Y, Z) (vox m) (i, j, k)"
  apply (simp add: erode_slices_def vox_fold_set_slice erode2D_def)
  apply (subst pix_binary_erosion[where X=X and Y=Y])
   apply (simp add: get_slice_def)
  apply (simp add: get_slice_def)
  done

subsection \<open>Dictionaries, medians, masks\<close>

lemma map_of_dict_set: "map_of (dict_set d k v) = (map_of d)(k \<mapsto> v)"
  by (induction d) (auto simp: fun_eq_iff)

lemma dict_set_fresh: "k \<notin> fst ` set d \<Longrightarrow> dict_set d k v = d @ [(k, v)]"
  by (induction d) auto

lemma dict_get_set: "dict_get (dict_set d k v) k' = (if k' = k then Inr v else dict_get d k')"
  by (simp add: dict_get_def map_of_dict_set)

lemma feq_Fin: "feq v (Fin c) = (v = Fin c)"
  by (cases v) auto

lemma fins_drop_nan: "fins (drop_nan vs) = fins vs"
  by (induction vs rule: fins.induct) (simp_all add: drop_nan_def)

lemma NaN_notin_drop_nan: "NaN \<notin> set (drop_nan vs)"
  by (auto simp: drop_nan_def)

lemma fins_Nil_iff: "NaN \<notin> set vs \<Longrightarrow> fins vs = [] \<longleftrightarrow> vs = []"
  by (induction vs rule: fins.induct) simp_all

lemma median_or_nan_drop_nan: "median_or_nan (drop_nan vs) = median (fins vs)"
  using fins_Nil_iff[OF NaN_notin_drop_nan, of vs]
  by (simp add: median_or_nan_def np_median_def median_def NaN_notin_drop_nan fins_drop_nan)

lemma inside_iff: "inside s p \<longleftrightarrow> p \<in> set (indices s)"
  by (cases s; cases p) (simp add: inside_def set_indices)

lemma shape_clip: "shape (clip v) = shape v"
  by (simp add: clip_def)

lemma clip_clip: "clip (clip v) = clip v"
  by (simp add: clip_def fun_eq_iff)

lemma vox_outside:
  assumes "clip v = v" "p \<notin> set (indices (shape v))"
  shows "vox v p = NaN"
proof -
  have "vox (clip v) p = NaN" using assms(2) by (simp add: clip_def inside_iff)
  then show ?thesis by (simp only: assms(1))
qed

lemma nib_load_clip: "nib_load fs p = Inr v \<Longrightarrow> clip v = v"
  by (auto simp: nib_load_def clip_clip split: option.splits)

lemma mask_fits_refl: "mask_fits s s"
  by (cases s) (simp add: mask_fits_def axis_fits_def)

lemma indices_Nil_iff: "indices (X, Y, Z) = [] \<longleftrightarrow> X = 0 \<or> Y = 0 \<or> Z = 0"
  using set_indices[of X Y Z] by (auto simp: set_empty[symmetric] simp del: set_empty)

lemma mask_fits_cases: "mask_fits sm sa \<Longrightarrow> sm = sa \<or> indices sm = []"
  by (cases sm; cases sa) (auto simp: mask_fits_def axis_fits_def indices_Nil_iff)

lemma bool_index_unfit: "\<not> mask_fits (shape m) (shape a) \<Longrightarrow> bool_index a m = Inl IndexError"
  by (simp add: bool_index_def)

lemma bool_index_fit:
  assumes fits: "mask_fits (shape m) (shape a)"
    and agree: "\<And>p. p \<in> set (indices (shape m)) \<Longrightarrow> vox m p = P p"
    and out: "\<And>p. p \<notin> set (indices (shape m)) \<Longrightarrow> \<not> P p"
  shows "bool_index a m = Inr (map (vox a) (filter P (indices (shape a))))"
proof -
  have 1: "filter (vox m) (indices (shape m)) = filter P (indices (shape m))"
    by (rule filter_cong) (simp_all add: agree)
  have 2: "filter P (indices (shape m)) = filter P (indices (shape a))"
  proof (cases "shape m = shape a")
    case True
    then show ?thesis by simp
  next
    case False
    with mask_fits_cases[OF fits] have e: "indices (shape m) = []" by simp
    then have "\<not> P p" for p using out[of p] by simp
    then show ?thesis by (simp add: e)
  qed
  show ?thesis by (simp add: bool_index_def fits 1 2)
qed

lemma bool_index_sel:
  assumes "shape m = shape a" "\<And>p. p \<in> set (indices (shape a)) \<Longrightarrow> vox m p = P p"
  shows "bool_index a m = Inr (map (vox a) (filter P (indices (shape a))))"
proof -
  have "filter (vox m) (indices (shape a)) = filter P (indices (shape a))"
    by (rule filter_cong) (simp_all add: assms(2))
  then show ?thesis by (simp add: bool_index_def assms(1) mask_fits_refl)
qed

lemma vox_eroded_label:
  assumes "p \<in> set (indices (shape seg))"
  shows "vox (erode_slices (np_map (\<lambda>v. feq v (Fin c)) seg)) p = erode2D (shape seg) (equals seg c) p"
proof -
  obtain X Y Z where s: "shape seg = (X, Y, Z)" by (cases "shape seg") 
  obtain i j k where p: "p = (i, j, k)" by (cases p)
  have k: "k < Z" using assms by (simp add: s p set_indices)
  have v: "vox (np_map (\<lambda>v. feq v (Fin c)) seg) = equals seg c"
    by (simp add: np_map_def equals_def feq_Fin fun_eq_iff)
  have "shape (np_map (\<lambda>v. feq v (Fin c)) seg) = (X, Y, Z)" by (simp add: np_map_def s)
  from vox_erode_slices[OF this k, of i j] show ?thesis by (simp add: v s p)
qed

lemma erode2D_outside:
  assumes "clip seg = seg" "p \<notin> set (indices (shape seg))"
  shows "\<not> erode2D s (equals seg c) p"
  using vox_outside[OF assms] by (cases p; cases s) (simp add: erode2D_def equals_def)

lemma isAnyOf_outside:
  assumes "clip seg = seg" "p \<notin> set (indices (shape seg))"
  shows "\<not> isAnyOf seg cs p"
  using vox_outside[OF assms] by (simp add: isAnyOf_def equals_def list_ex_iff)

lemma equals_outside:
  assumes "clip v = v" "p \<notin> set (indices (shape v))"
  shows "\<not> equals v c p"
  using vox_outside[OF assms] by (simp add: equals_def)

lemma broadcast2_same:
  assumes "shape a = s" "shape b = s"
  obtains c where "broadcast2 f a b = Inr c" "shape c = s"
    "\<And>p. p \<in> set (indices s) \<Longrightarrow> vox c p = f (vox a p) (vox b p)"
proof -
  obtain X Y Z where s: "s = (X, Y, Z)" by (cases s)
  let ?c = "\<lparr>shape = (X, Y, Z),
       vox = (\<lambda>(i, j, k). f (vox a (bpos X i, bpos Y j, bpos Z k))
                              (vox b (bpos X i, bpos Y j, bpos Z k)))\<rparr>"
  have 1: "broadcast2 f a b = Inr ?c" by (simp add: broadcast2_def assms s bdim_def)
  have 2: "vox ?c p = f (vox a p) (vox b p)" if "p \<in> set (indices s)" for p
    using that by (auto simp: s set_indices bpos_def)
  show thesis by (rule that[OF 1 _ 2]) (simp_all add: s)
qed

lemma broadcast2_InrD:
  assumes "broadcast2 f a b = Inr c" "shape a = (X, Y, Z)" "shape b = (X', Y', Z')"
  shows "\<exists>x y z. bdim X X' = Some x \<and> bdim Y Y' = Some y \<and> bdim Z Z' = Some z \<and>
    shape c = (x, y, z) \<and>
    vox c = (\<lambda>(i, j, k). f (vox a (bpos X i, bpos Y j, bpos Z k))
                            (vox b (bpos X' i, bpos Y' j, bpos Z' k)))"
  using assms by (auto simp: broadcast2_def split: option.splits)

lemma bdim_fits:
  "axis_fits m q \<Longrightarrow> axis_fits l q \<Longrightarrow> bdim m l = Some b \<Longrightarrow>
   (m = l \<and> b = m) \<or> (b = 0 \<and> (m = 0 \<or> l = 0))"
  by (auto simp: axis_fits_def bdim_def split: if_splits)

lemma bshape_cases:
  assumes "mask_fits (X, Y, Z) Q" "mask_fits (X', Y', Z') Q"
    "bdim X X' = Some x" "bdim Y Y' = Some y" "bdim Z Z' = Some z"
  shows "((X, Y, Z) = (X', Y', Z') \<and> (x, y, z) = (X, Y, Z)) \<or>
         (indices (x, y, z) = [] \<and> (indices (X, Y, Z) = [] \<or> indices (X', Y', Z') = []))"
proof -
  obtain A B C where Q: "Q = (A, B, C)" by (cases Q)
  from assms(1,2) have f: "axis_fits X A" "axis_fits Y B" "axis_fits Z C"
    "axis_fits X' A" "axis_fits Y' B" "axis_fits Z' C"
    by (simp_all add: mask_fits_def Q)
  from bdim_fits[OF f(1) f(4) assms(3)] bdim_fits[OF f(2) f(5) assms(4)]
    bdim_fits[OF f(3) f(6) assms(5)]
  show ?thesis unfolding indices_Nil_iff by auto
qed

lemma and_mask_sel:
  assumes sa: "shape A = sS" and sb: "shape Bm = sL"
    and fs: "mask_fits sS Q" and fl: "mask_fits sL Q"
    and bc: "broadcast2 (\<and>) A Bm = Inr nl"
    and a_in: "\<And>p. p \<in> set (indices sS) \<Longrightarrow> vox A p = PA p"
    and b_in: "\<And>p. p \<in> set (indices sL) \<Longrightarrow> vox Bm p = PB p"
    and a_out: "\<And>p. p \<notin> set (indices sS) \<Longrightarrow> \<not> PA p"
    and b_out: "\<And>p. p \<notin> set (indices sL) \<Longrightarrow> \<not> PB p"
  shows "p \<in> set (indices (shape nl)) \<Longrightarrow> vox nl p = (PA p \<and> PB p)"
    and "p \<notin> set (indices (shape nl)) \<Longrightarrow> \<not> (PA p \<and> PB p)"
proof -
  obtain X Y Z where sS: "sS = (X, Y, Z)" by (cases sS)
  obtain X' Y' Z' where sL: "sL = (X', Y', Z')" by (cases sL)
  from broadcast2_InrD[OF bc sa[unfolded sS] sb[unfolded sL]] obtain x y z where
    b: "bdim X X' = Some x" "bdim Y Y' = Some y" "bdim Z Z' = Some z"
    and sh: "shape nl = (x, y, z)"
    and v: "vox nl = (\<lambda>(i, j, k). vox A (bpos X i, bpos Y j, bpos Z k) \<and>
                                  vox Bm (bpos X' i, bpos Y' j, bpos Z' k))"
    by blast
  from bshape_cases[OF fs[unfolded sS] fl[unfolded sL] b]
  consider (same) "sS = sL" "shape nl = sS"
    | (empty) "indices (shape nl) = []" "indices sS = [] \<or> indices sL = []"
    unfolding sS sL sh by auto
  note cases = this
  show "vox nl p = (PA p \<and> PB p)" if p: "p \<in> set (indices (shape nl))"
  proof (cases rule: cases)
    case same
    obtain i j k where pp: "p = (i, j, k)" by (cases p)
    from p same have r: "i < X" "j < Y" "k < Z" "X' = X" "Y' = Y" "Z' = Z"
      by (simp_all add: sS sL pp set_indices)
    then have "bpos X i = i" "bpos Y j = j" "bpos Z k = k"
      by (auto simp: bpos_def)
    with r have "vox nl p = (vox A p \<and> vox Bm p)" by (simp add: pp v)
    moreover from p same have "p \<in> set (indices sS)" "p \<in> set (indices sL)" by simp_all
    ultimately show ?thesis by (simp add: a_in b_in)
  next
    case empty
    with p show ?thesis by simp
  qed
  show "\<not> (PA p \<and> PB p)" if p: "p \<notin> set (indices (shape nl))"
  proof (cases rule: cases)
    case same
    with p have "p \<notin> set (indices sS)" by simp
    then show ?thesis by (simp add: a_out)
  next
    case empty
    then show ?thesis using a_out[of p] b_out[of p] by auto
  qed
qed

subsection \<open>The three blocks of the script\<close>

lemma base_index:
  assumes "clip seg = seg" "mask_fits (shape seg) (shape qsm)"
  shows "bool_index qsm (erode_slices (np_map (\<lambda>v. feq v (Fin c)) seg)) =
         Inr (map (vox qsm) (filter (erode2D (shape seg) (equals seg c)) (indices (shape qsm))))"
proof (rule bool_index_fit)
  have s: "shape (erode_slices (np_map (\<lambda>v. feq v (Fin c)) seg)) = shape seg"
    by (simp add: shape_erode_slices np_map_def)
  show "mask_fits (shape (erode_slices (np_map (\<lambda>v. feq v (Fin c)) seg))) (shape qsm)"
    unfolding s by (rule assms(2))
  show "vox (erode_slices (np_map (\<lambda>v. feq v (Fin c)) seg)) p =
          erode2D (shape seg) (equals seg c) p"
    if "p \<in> set (indices (shape (erode_slices (np_map (\<lambda>v. feq v (Fin c)) seg))))" for p
    using that unfolding s by (rule vox_eroded_label)
  show "\<not> erode2D (shape seg) (equals seg c) p"
    if "p \<notin> set (indices (shape (erode_slices (np_map (\<lambda>v. feq v (Fin c)) seg))))" for p
    using that unfolding s by (rule erode2D_outside[OF assms(1)])
qed

lemma base_regions_unfit:
  "\<not> mask_fits (shape seg) (shape qsm) \<Longrightarrow> base_regions seg qsm (k # ks) d = Inl IndexError"
  by (simp add: bool_index_def shape_erode_slices np_map_def)

lemma base_regions_ok:
  assumes "clip seg = seg" "mask_fits (shape seg) (shape qsm)"
  shows "set ks \<subseteq> fst ` set regions_dic \<Longrightarrow>
     base_regions seg qsm ks d =
       Inr (fold (\<lambda>k d. dict_set d (the (map_of regions_dic k)) (base_rule seg qsm k)) ks d)"
proof (induction ks arbitrary: d)
  case Nil
  then show ?case by simp
next
  case (Cons k ks)
  from Cons.prems have "k \<in> fst ` set regions_dic" by simp
  then obtain n where n: "map_of regions_dic k = Some n"
    by (metis domIff dom_map_of_conv_image_fst not_None_eq)
  from Cons.prems have ks: "set ks \<subseteq> fst ` set regions_dic" by simp
  show ?case
    by (simp add: base_index[OF assms] median_or_nan_drop_nan dict_get_def n Cons.IH[OF ks]
        base_rule_def finiteValues_def)
qed

lemma fold_regions_dic:
  "fold (\<lambda>k d. dict_set d (the (map_of regions_dic k)) (f k)) (map fst regions_dic) [] =
     map (\<lambda>(c, n). (n, f c)) regions_dic"
  by (simp add: regions_dic_def)

lemma base_regions_eq:
  assumes "clip seg = seg"
  shows "base_regions seg qsm (map fst regions_dic) [] =
     (if \<not> mask_fits (shape seg) (shape qsm) then Inl IndexError
      else Inr (map (\<lambda>(c, n). (n, base_rule seg qsm c)) regions_dic))"
proof (cases "mask_fits (shape seg) (shape qsm)")
  case True
  then show ?thesis by (simp add: base_regions_ok[OF assms] fold_regions_dic)
next
  case False
  have "map fst regions_dic = 10 # tl (map fst regions_dic)" by (simp add: regions_dic_def)
  with False show ?thesis by (metis base_regions_unfit)
qed

lemma fgt_filter_drop_nan:
  "filter (\<lambda>v. fgt v (Fin 0)) (drop_nan vs) = drop_nan (filter (\<lambda>v. fgt v (Fin 0)) vs)"
  by (induction vs rule: fins.induct) (simp_all add: drop_nan_def)

lemma sn_region_eq:
  assumes "clip sn = sn"
  shows "sn_region sn mni =
     (if \<not> mask_fits (shape sn) (shape mni) then Inl IndexError else Inr (sn_rule sn mni))"
proof (cases "mask_fits (shape sn) (shape mni)")
  case True
  have "bool_index mni (np_map (\<lambda>v. fgt v (Fin 0)) sn) =
        Inr (map (vox mni) (filter (\<lambda>p. fgt (vox sn p) (Fin 0)) (indices (shape mni))))"
  proof (rule bool_index_fit)
    show "mask_fits (shape (np_map (\<lambda>v. fgt v (Fin 0)) sn)) (shape mni)"
      by (simp add: np_map_def True)
    show "vox (np_map (\<lambda>v. fgt v (Fin 0)) sn) p = fgt (vox sn p) (Fin 0)" for p
      by (simp add: np_map_def)
    show "\<not> fgt (vox sn p) (Fin 0)"
      if "p \<notin> set (indices (shape (np_map (\<lambda>v. fgt v (Fin 0)) sn)))" for p
      using vox_outside[OF assms, of p] that by (simp add: np_map_def)
  qed
  then show ?thesis
    by (simp add: sn_region_def True fgt_filter_drop_nan median_or_nan_drop_nan sn_rule_def
        finiteValues_def positiveOnly_def filter_map comp_def conj_commute)
next
  case False
  then show ?thesis by (simp add: sn_region_def bool_index_def np_map_def)
qed

lemma astype_uint8_1: "(astype_uint8 b = Suc 0) = b"
  by (simp add: astype_uint8_def)

lemma lesion_regions_unfit:
  "\<not> mask_fits (shape les) (shape qsm) \<Longrightarrow> lesion_regions seg qsm les d = Inl IndexError"
  by (simp add: lesion_regions_def bool_index_def np_map_def)

lemma wm_mask:
  obtains wm where
    "np_logical_or (np_map (\<lambda>v. feq v (Fin 2)) seg) (np_map (\<lambda>v. feq v (Fin 41)) seg) = Inr wm"
    "shape (np_map (\<lambda>u. u = 1) (np_map astype_uint8 wm)) = shape seg"
    "\<And>p. p \<in> set (indices (shape seg)) \<Longrightarrow>
       vox (np_map (\<lambda>u. u = 1) (np_map astype_uint8 wm)) p = isAnyOf seg [2, 41] p"
proof -
  obtain wm where wm: "np_logical_or (np_map (\<lambda>v. feq v (Fin 2)) seg)
                          (np_map (\<lambda>v. feq v (Fin 41)) seg) = Inr wm"
    and wm_shape: "shape wm = shape seg"
    and wm_vox: "\<And>p. p \<in> set (indices (shape seg)) \<Longrightarrow>
                   vox wm p = (vox (np_map (\<lambda>v. feq v (Fin 2)) seg) p \<or>
                               vox (np_map (\<lambda>v. feq v (Fin 41)) seg) p)"
    unfolding np_logical_or_def
    by (rule broadcast2_same[of "np_map (\<lambda>v. feq v (Fin 2)) seg" "shape seg"
          "np_map (\<lambda>v. feq v (Fin 41)) seg" "(\<or>)"])
       (simp_all add: np_map_def)
  have "vox (np_map (\<lambda>u. u = 1) (np_map astype_uint8 wm)) p = isAnyOf seg [2, 41] p"
    if "p \<in> set (indices (shape seg))" for p
    using wm_vox[OF that] by (simp add: np_map_def astype_uint8_1 isAnyOf_def equals_def feq_Fin)
  moreover have "shape (np_map (\<lambda>u. u = 1) (np_map astype_uint8 wm)) = shape seg"
    by (simp add: np_map_def wm_shape)
  ultimately show thesis using wm that by blast
qed

lemma lesion_regions_InrD:
  assumes cs: "clip seg = seg" and cl: "clip les = les"
    and fs: "mask_fits (shape seg) (shape qsm)"
    and r: "lesion_regions seg qsm les d = Inr res"
  shows "res =
     dict_set (dict_set (dict_set (dict_set (dict_set d
            ''WMH'' (wmh_rule les qsm))
            ''WM'' (wm_rule seg qsm))
            ''WM_no_lesions'' (wm_no_lesions_rule seg les qsm))
            ''Diff-WM'' (fsub (wm_rule seg qsm) (wmh_rule les qsm)))
            ''Diff-WM-no-lesions'' (fsub (wm_no_lesions_rule seg les qsm) (wmh_rule les qsm))"
proof -
  let ?q = "shape qsm"
  have fl: "mask_fits (shape les) ?q"
    using r lesion_regions_unfit[of les qsm seg d] by auto
  have b1: "bool_index qsm (np_map (\<lambda>v. feq v (Fin 1)) les) =
        Inr (map (vox qsm) (filter (equals les 1) (indices ?q)))"
  proof (rule bool_index_fit)
    show "mask_fits (shape (np_map (\<lambda>v. feq v (Fin 1)) les)) ?q"
      by (simp add: np_map_def fl)
    show "vox (np_map (\<lambda>v. feq v (Fin 1)) les) p = equals les 1 p" for p
      by (simp add: np_map_def equals_def feq_Fin)
    show "\<not> equals les 1 p" if "p \<notin> set (indices (shape (np_map (\<lambda>v. feq v (Fin 1)) les)))" for p
      using that by (simp add: np_map_def equals_outside[OF cl])
  qed
  obtain wm where wm: "np_logical_or (np_map (\<lambda>v. feq v (Fin 2)) seg)
                          (np_map (\<lambda>v. feq v (Fin 41)) seg) = Inr wm"
    and wm_shape: "shape (np_map (\<lambda>u. u = 1) (np_map astype_uint8 wm)) = shape seg"
    and wm_sel: "\<And>p. p \<in> set (indices (shape seg)) \<Longrightarrow>
       vox (np_map (\<lambda>u. u = 1) (np_map astype_uint8 wm)) p = isAnyOf seg [2, 41] p"
    by (rule wm_mask[of seg]) blast
  let ?wm = "np_map (\<lambda>u. u = 1) (np_map astype_uint8 wm)"
  let ?l0 = "np_map (\<lambda>v. feq v (Fin 0)) les"
  have b2: "bool_index qsm ?wm =
        Inr (map (vox qsm) (filter (isAnyOf seg [2, 41]) (indices ?q)))"
  proof (rule bool_index_fit)
    show "mask_fits (shape ?wm) ?q" unfolding wm_shape by (rule fs)
    show "vox ?wm p = isAnyOf seg [2, 41] p" if "p \<in> set (indices (shape ?wm))" for p
      using that unfolding wm_shape by (rule wm_sel)
    show "\<not> isAnyOf seg [2, 41] p" if "p \<notin> set (indices (shape ?wm))" for p
      using that unfolding wm_shape by (rule isAnyOf_outside[OF cs])
  qed
  note r1 = r[unfolded lesion_regions_def Let_def b1 wm b2 sum.case]
  from r1 obtain nl where nl: "np_logical_and ?wm ?l0 = Inr nl"
    by (auto split: sum.splits)
  let ?nl = "np_map (\<lambda>u. u = 1) (np_map astype_uint8 nl)"
  have l0_shape: "shape ?l0 = shape les" by (simp add: np_map_def)
  have nl_shape: "shape ?nl = shape nl" by (simp add: np_map_def)
  have nl_vox: "vox ?nl p = vox nl p" for p by (simp add: np_map_def astype_uint8_1)
  note sel = and_mask_sel[OF wm_shape l0_shape fs fl nl[unfolded np_logical_and_def],
      of "isAnyOf seg [2, 41]" "equals les 0"]
  have in3: "vox ?nl p = (isAnyOf seg [2, 41] p \<and> equals les 0 p)"
    if "p \<in> set (indices (shape ?nl))" for p
    unfolding nl_vox
  proof (rule sel(1))
    show "vox ?l0 p = equals les 0 p" for p by (simp add: np_map_def equals_def feq_Fin)
    show "p \<in> set (indices (shape nl))" using that unfolding nl_shape .
  qed (simp_all add: wm_sel isAnyOf_outside[OF cs] equals_outside[OF cl] del: One_nat_def)
  have out3: "\<not> (isAnyOf seg [2, 41] p \<and> equals les 0 p)"
    if "p \<notin> set (indices (shape ?nl))" for p
  proof (rule sel(2))
    show "vox ?l0 p = equals les 0 p" for p by (simp add: np_map_def equals_def feq_Fin)
    show "p \<notin> set (indices (shape nl))" using that unfolding nl_shape .
  qed (simp_all add: wm_sel isAnyOf_outside[OF cs] equals_outside[OF cl] del: One_nat_def)
  note r2 = r1[unfolded nl sum.case]
  have f3: "mask_fits (shape ?nl) ?q"
    using r2 bool_index_unfit[of ?nl qsm] by (auto split: sum.splits)
  have b3: "bool_index qsm ?nl =
        Inr (map (vox qsm) (filter (\<lambda>p. isAnyOf seg [2, 41] p \<and> equals les 0 p) (indices ?q)))"
    using f3 in3 out3 by (rule bool_index_fit)
  from r2 show ?thesis
    by (simp add: b3 median_or_nan_drop_nan dict_get_set
        wmh_rule_def wm_rule_def wm_no_lesions_rule_def finiteValues_def del: One_nat_def)
qed

lemma lesion_regions_ok:
  assumes les: "shape les = shape qsm" and seg: "shape seg = shape qsm"
  shows "lesion_regions seg qsm les d =
     Inr (dict_set (dict_set (dict_set (dict_set (dict_set d
            ''WMH'' (wmh_rule les qsm))
            ''WM'' (wm_rule seg qsm))
            ''WM_no_lesions'' (wm_no_lesions_rule seg les qsm))
            ''Diff-WM'' (fsub (wm_rule seg qsm) (wmh_rule les qsm)))
            ''Diff-WM-no-lesions'' (fsub (wm_no_lesions_rule seg les qsm) (wmh_rule les qsm)))"
proof -
  let ?s = "shape qsm"
  have b1: "bool_index qsm (np_map (\<lambda>v. feq v (Fin 1)) les) =
        Inr (map (vox qsm) (filter (equals les 1) (indices ?s)))"
    by (rule bool_index_sel) (simp_all add: np_map_def les equals_def feq_Fin)
  obtain wm where wm: "np_logical_or (np_map (\<lambda>v. feq v (Fin 2)) seg)
                          (np_map (\<lambda>v. feq v (Fin 41)) seg) = Inr wm"
    and wm_shape: "shape (np_map (\<lambda>u. u = 1) (np_map astype_uint8 wm)) = shape seg"
    and wm_sel: "\<And>p. p \<in> set (indices (shape seg)) \<Longrightarrow>
       vox (np_map (\<lambda>u. u = 1) (np_map astype_uint8 wm)) p = isAnyOf seg [2, 41] p"
    by (rule wm_mask[of seg]) blast
  let ?wm = "np_map (\<lambda>u. u = 1) (np_map astype_uint8 wm)"
  have b2: "bool_index qsm ?wm =
        Inr (map (vox qsm) (filter (isAnyOf seg [2, 41]) (indices ?s)))"
  proof (rule bool_index_sel)
    show "shape ?wm = ?s" unfolding wm_shape by (rule seg)
    show "vox ?wm p = isAnyOf seg [2, 41] p" if "p \<in> set (indices ?s)" for p
      using that unfolding seg[symmetric] by (rule wm_sel)
  qed
  have sw: "shape ?wm = ?s" unfolding wm_shape by (rule seg)
  have sl: "shape (np_map (\<lambda>v. feq v (Fin 0)) les) = ?s" by (simp add: np_map_def les)
  obtain nl where nl: "np_logical_and ?wm (np_map (\<lambda>v. feq v (Fin 0)) les) = Inr nl"
    and nl_shape: "shape nl = ?s"
    and nl_vox: "\<And>p. p \<in> set (indices ?s) \<Longrightarrow>
                   vox nl p = (vox ?wm p \<and> vox (np_map (\<lambda>v. feq v (Fin 0)) les) p)"
    unfolding np_logical_and_def
    by (rule broadcast2_same[OF sw sl, of "(\<and>)"]) blast
  have nl_sel: "vox (np_map (\<lambda>u. u = 1) (np_map astype_uint8 nl)) p =
                  (isAnyOf seg [2, 41] p \<and> equals les 0 p)"
    if "p \<in> set (indices ?s)" for p
    using nl_vox[OF that] wm_sel[unfolded seg, OF that]
    by (simp add: np_map_def astype_uint8_1 equals_def feq_Fin)
  have b3: "bool_index qsm (np_map (\<lambda>u. u = 1) (np_map astype_uint8 nl)) =
        Inr (map (vox qsm) (filter (\<lambda>p. isAnyOf seg [2, 41] p \<and> equals les 0 p) (indices ?s)))"
  proof (rule bool_index_sel)
    show "shape (np_map (\<lambda>u. u = 1) (np_map astype_uint8 nl)) = ?s"
      by (simp add: np_map_def nl_shape)
  qed (rule nl_sel)
  show ?thesis
    unfolding lesion_regions_def Let_def
    by (simp add: b1 wm b2 nl b3 median_or_nan_drop_nan dict_get_set
        wmh_rule_def wm_rule_def wm_no_lesions_rule_def finiteValues_def del: One_nat_def)
qed

subsection \<open>The whole extraction\<close>

lemma dict_set_core:
  "dict_set (dict_set (map (\<lambda>(code, name). (name, base_rule seg qsm code)) regions_dic)
      ''SN_L'' l) ''SN_R'' r = 
   map (\<lambda>(code, name). (name, base_rule seg qsm code)) regions_dic @ [(''SN_L'', l), (''SN_R'', r)]"
  by (simp add: regions_dic_def)

lemma map_fst_core: "map fst (core_result seg qsm snl snr mni) = base_names @ [''SN_L'', ''SN_R'']"
  by (simp add: core_result_def base_names_def regions_dic_def)

lemma map_fst_lesion: "map fst (lesion_result seg qsm les) = lesion_names"
  by (simp add: lesion_result_def lesion_names_def)

lemma dict_set_lesion:
  "dict_set (dict_set (dict_set (dict_set (dict_set (core_result seg qsm snl snr mni)
      ''WMH'' v1) ''WM'' v2) ''WM_no_lesions'' v3) ''Diff-WM'' v4) ''Diff-WM-no-lesions'' v5 =
   core_result seg qsm snl snr mni @
     [(''WMH'', v1), (''WM'', v2), (''WM_no_lesions'', v3), (''Diff-WM'', v4),
      (''Diff-WM-no-lesions'', v5)]"
  by (simp add: core_result_def regions_dic_def)

lemma extract_qsm_eq:
  assumes "nib_load fs (segmentation a) = Inr seg" "nib_load fs (qsm_in_T1 a) = Inr qsm"
    "nib_load fs (sn_mask_left a) = Inr snl" "nib_load fs (sn_mask_right a) = Inr snr"
    "nib_load fs (qsm_in_mni152 a) = Inr mni"
  shows "extract_qsm a fs =
     (if \<not> mask_fits (shape seg) (shape qsm) \<or> \<not> mask_fits (shape snl) (shape mni) \<or>
         \<not> mask_fits (shape snr) (shape mni)
      then Inl IndexError
      else case lesions_mask a of
             None \<Rightarrow> Inr (core_result seg qsm snl snr mni)
           | Some p \<Rightarrow>
               if p \<noteq> [] \<and> isfile fs p then
                 (case nib_load fs p of
                    Inl e \<Rightarrow> Inl e
                  | Inr les \<Rightarrow> lesion_regions seg qsm les (core_result seg qsm snl snr mni))
               else Inr (core_result seg qsm snl snr mni))"
  unfolding extract_qsm_def Let_def
  by (simp add: assms base_regions_eq[OF nib_load_clip[OF assms(1)]]
      sn_region_eq[OF nib_load_clip[OF assms(3)]] sn_region_eq[OF nib_load_clip[OF assms(4)]]
      dict_set_core core_result_def[symmetric] split: option.splits sum.splits)

lemma lesion_chain:
  "dict_set (dict_set (dict_set (dict_set (dict_set (core_result seg qsm snl snr mni)
            ''WMH'' (wmh_rule les qsm))
            ''WM'' (wm_rule seg qsm))
            ''WM_no_lesions'' (wm_no_lesions_rule seg les qsm))
            ''Diff-WM'' (fsub (wm_rule seg qsm) (wmh_rule les qsm)))
            ''Diff-WM-no-lesions'' (fsub (wm_no_lesions_rule seg les qsm) (wmh_rule les qsm)) =
   core_result seg qsm snl snr mni @ lesion_result seg qsm les"
  by (simp only: dict_set_lesion lesion_result_def)

lemma extract_qsm_InrD:
  assumes "extract_qsm a fs = Inr res"
  obtains seg qsm snl snr mni rest where
    "nib_load fs (segmentation a) = Inr seg" "nib_load fs (qsm_in_T1 a) = Inr qsm"
    "nib_load fs (sn_mask_left a) = Inr snl" "nib_load fs (sn_mask_right a) = Inr snr"
    "nib_load fs (qsm_in_mni152 a) = Inr mni"
    "mask_fits (shape seg) (shape qsm)" "mask_fits (shape snl) (shape mni)"
    "mask_fits (shape snr) (shape mni)"
    "res = core_result seg qsm snl snr mni @ rest"
    "(\<not> lesions_given a fs \<and> rest = []) \<or>
     (\<exists>p les. lesions_mask a = Some p \<and> lesions_given a fs \<and> nib_load fs p = Inr les \<and>
        mask_fits (shape les) (shape qsm) \<and> rest = lesion_result seg qsm les)"
proof -
  from assms obtain seg qsm snl snr mni where l:
    "nib_load fs (segmentation a) = Inr seg" "nib_load fs (qsm_in_T1 a) = Inr qsm"
    "nib_load fs (sn_mask_left a) = Inr snl" "nib_load fs (sn_mask_right a) = Inr snr"
    "nib_load fs (qsm_in_mni152 a) = Inr mni"
    by (auto simp: extract_qsm_def split: sum.splits)
  note e = assms[unfolded extract_qsm_eq[OF l]]
  from e have s: "mask_fits (shape seg) (shape qsm)" "mask_fits (shape snl) (shape mni)"
    "mask_fits (shape snr) (shape mni)"
    by (auto split: if_splits)
  have les: "mask_fits (shape les) (shape qsm) \<and>
      res = core_result seg qsm snl snr mni @ lesion_result seg qsm les"
    if "nib_load fs p = Inr les"
      and "lesion_regions seg qsm les (core_result seg qsm snl snr mni) = Inr res" for p les
  proof
    show "mask_fits (shape les) (shape qsm)"
      using that(2) by (cases "mask_fits (shape les) (shape qsm)") (simp_all add: lesion_regions_unfit)
    show "res = core_result seg qsm snl snr mni @ lesion_result seg qsm les"
      using lesion_regions_InrD[OF nib_load_clip[OF l(1)] nib_load_clip[OF that(1)] s(1) that(2)]
      by (simp only: lesion_chain)
  qed
  from e s have "\<exists>rest. res = core_result seg qsm snl snr mni @ rest \<and>
     ((\<not> lesions_given a fs \<and> rest = []) \<or>
      (\<exists>p les. lesions_mask a = Some p \<and> lesions_given a fs \<and> nib_load fs p = Inr les \<and>
         mask_fits (shape les) (shape qsm) \<and> rest = lesion_result seg qsm les))"
    by (auto simp: lesions_given_def split: option.splits if_splits sum.splits dest: les)
  then obtain rest where "res = core_result seg qsm snl snr mni @ rest"
    "(\<not> lesions_given a fs \<and> rest = []) \<or>
      (\<exists>p les. lesions_mask a = Some p \<and> lesions_given a fs \<and> nib_load fs p = Inr les \<and>
         mask_fits (shape les) (shape qsm) \<and> rest = lesion_result seg qsm les)"
    by blast
  with l s show thesis by (rule that)
qed

lemma extract_qsm_ok:
  assumes "nib_load fs (segmentation a) = Inr seg" "nib_load fs (qsm_in_T1 a) = Inr qsm"
    "nib_load fs (sn_mask_left a) = Inr snl" "nib_load fs (sn_mask_right a) = Inr snr"
    "nib_load fs (qsm_in_mni152 a) = Inr mni"
    "shape seg = shape qsm" "shape snl = shape mni" "shape snr = shape mni"
    "lesions_given a fs \<longrightarrow>
       lesions_mask a = Some p \<and> nib_load fs p = Inr les \<and> shape les = shape qsm"
  shows "extract_qsm a fs =
     Inr (core_result seg qsm snl snr mni @
          (if lesions_given a fs then lesion_result seg qsm les else []))"
  using assms(6-9)
  by (auto simp: extract_qsm_eq[OF assms(1-5)] mask_fits_refl lesions_given_def
      lesion_regions_ok lesion_chain split: option.splits)

lemma extract_qsm_unfit:
  assumes "nib_load fs (segmentation a) = Inr seg" "nib_load fs (qsm_in_T1 a) = Inr qsm"
    "nib_load fs (sn_mask_left a) = Inr snl" "nib_load fs (sn_mask_right a) = Inr snr"
    "nib_load fs (qsm_in_mni152 a) = Inr mni"
    "\<not> mask_fits (shape seg) (shape qsm) \<or> \<not> mask_fits (shape snl) (shape mni) \<or>
     \<not> mask_fits (shape snr) (shape mni) \<or>
     (lesions_given a fs \<and> lesions_mask a = Some p \<and> nib_load fs p = Inr les \<and>
      \<not> mask_fits (shape les) (shape qsm))"
  shows "extract_qsm a fs = Inl IndexError"
  using assms(6)
  by (auto simp: extract_qsm_eq[OF assms(1-5)] lesions_given_def lesion_regions_unfit
      split: option.splits)

lemma map_of_renamed:
  "distinct (map snd kvs) \<Longrightarrow> (c, n) \<in> set kvs \<Longrightarrow>
   map_of (map (\<lambda>(c, n). (n, f c)) kvs @ rest) n = Some (f c)"
  by (induction kvs) (auto simp: rev_image_eqI)

lemma distinct_regions: "distinct (map snd regions_dic)"
  by (simp add: regions_dic_def)

lemma map_of_core_base:
  "(code, name) \<in> set regions_dic \<Longrightarrow>
   map_of (core_result seg qsm snl snr mni @ rest) name = Some (base_rule seg qsm code)"
  unfolding core_result_def append_assoc by (rule map_of_renamed[OF distinct_regions])

lemma map_of_core_other:
  assumes "k \<notin> set (base_names @ [''SN_L'', ''SN_R''])"
  shows "map_of (core_result seg qsm snl snr mni @ rest) k = map_of rest k"
proof -
  have "fst ` set (core_result seg qsm snl snr mni) = set (map fst (core_result seg qsm snl snr mni))"
    by simp
  also have "\<dots> = set (base_names @ [''SN_L'', ''SN_R''])"
    by (simp only: map_fst_core)
  finally have "k \<notin> fst ` set (core_result seg qsm snl snr mni)"
    using assms by blast
  then have "map_of (core_result seg qsm snl snr mni) k = None"
    by (simp add: map_of_eq_None_iff)
  then show ?thesis by (simp add: map_add_def)
qed

lemma lesion_names_fresh:
  "k \<in> set lesion_names \<Longrightarrow> k \<notin> set (base_names @ [''SN_L'', ''SN_R''])"
  by (auto simp: lesion_names_def base_names_def)

subsection \<open>The small data set\<close>

lemma map_of_core_sn:
  "map_of (core_result seg qsm snl snr mni @ rest) ''SN_L'' = Some (sn_rule snl mni)"
  "map_of (core_result seg qsm snl snr mni @ rest) ''SN_R'' = Some (sn_rule snr mni)"
  by (simp_all add: core_result_def regions_dic_def)

lemma demo_loads:
  "nib_load demo_fs ''aseg.mgz'' = Inr demo_seg"
  "nib_load demo_fs ''qsm.nii'' = Inr demo_qsm"
  "nib_load demo_fs ''snl.nii'' = Inr demo_sn_left"
  "nib_load demo_fs ''snr.nii'' = Inr demo_sn_right"
  "nib_load demo_fs ''mni.nii'' = Inr demo_mni"
  "nib_load demo_fs ''wmh.nii'' = Inr demo_lesions"
  "nib_load demo_fs ''zero.nii'' = Inr demo_no_lesions"
  "nib_load demo_fs ''empty.nii'' = Inr demo_empty"
  "nib_load demo_fs ''thin_aseg.mgz'' = Inr thin_seg"
  "nib_load demo_fs ''thin_qsm.nii'' = Inr thin_qsm"
  by (simp_all add: nib_load_def demo_fs_def demo_seg_def demo_qsm_def demo_sn_left_def
      demo_sn_right_def demo_mni_def demo_lesions_def demo_no_lesions_def demo_empty_def
      thin_seg_def thin_qsm_def clip_clip)

lemma demo_shapes:
  "shape demo_seg = (3, 4, 2)" "shape demo_qsm = (3, 4, 2)" "shape demo_lesions = (3, 4, 2)"
  "shape demo_no_lesions = (3, 4, 2)" "shape demo_mni = (2, 2, 1)"
  "shape demo_sn_left = (2, 2, 1)" "shape demo_sn_right = (2, 2, 1)"
  "shape demo_empty = (0, 4, 2)" "shape thin_seg = (1, 4, 2)" "shape thin_qsm = (1, 4, 2)"
  by (simp_all add: demo_seg_def demo_qsm_def demo_lesions_def demo_no_lesions_def
      demo_mni_def demo_sn_left_def demo_sn_right_def demo_empty_def thin_seg_def thin_qsm_def
      shape_clip)

lemma demo_isfile:
  "isfile demo_fs ''wmh.nii''" "isfile demo_fs ''zero.nii''" "isfile demo_fs ''snl.nii''"
  "\<not> isfile demo_fs ''absent.nii''" "\<not> isfile demo_fs ''out.csv''"
  "isfile demo_fs ''empty.nii''"
  by (simp_all add: isfile_def demo_fs_def)

lemma demo_extract:
  "extract_qsm demo_args demo_fs =
     Inr (core_result demo_seg demo_qsm demo_sn_left demo_sn_right demo_mni @
          lesion_result demo_seg demo_qsm demo_lesions)"
  using extract_qsm_ok[of demo_fs demo_args demo_seg demo_qsm demo_sn_left demo_sn_right
      demo_mni "''wmh.nii''" demo_lesions]
  by (simp add: demo_args_def demo_loads demo_shapes lesions_given_def demo_isfile)

subsection \<open>Results, keys and the output file\<close>

lemma extract_qsm_lesionsD:
  assumes "extract_qsm a fs = Inr res" "lesions_given a fs"
  obtains seg qsm snl snr mni p les where
    "nib_load fs (segmentation a) = Inr seg" "nib_load fs (qsm_in_T1 a) = Inr qsm"
    "nib_load fs (sn_mask_left a) = Inr snl" "nib_load fs (sn_mask_right a) = Inr snr"
    "nib_load fs (qsm_in_mni152 a) = Inr mni"
    "lesions_mask a = Some p" "nib_load fs p = Inr les"
    "res = core_result seg qsm snl snr mni @ lesion_result seg qsm les"
proof -
  from assms(1) obtain seg qsm snl snr mni rest where l:
    "nib_load fs (segmentation a) = Inr seg" "nib_load fs (qsm_in_T1 a) = Inr qsm"
    "nib_load fs (sn_mask_left a) = Inr snl" "nib_load fs (sn_mask_right a) = Inr snr"
    "nib_load fs (qsm_in_mni152 a) = Inr mni"
    and r: "res = core_result seg qsm snl snr mni @ rest"
    and d: "(\<not> lesions_given a fs \<and> rest = []) \<or>
     (\<exists>p les. lesions_mask a = Some p \<and> lesions_given a fs \<and> nib_load fs p = Inr les \<and>
        mask_fits (shape les) (shape qsm) \<and> rest = lesion_result seg qsm les)"
    by (rule extract_qsm_InrD)
  from d assms(2) obtain p les where
    "lesions_mask a = Some p" "nib_load fs p = Inr les"
    "rest = lesion_result seg qsm les"
    by blast
  with l r show thesis by (intro that[of seg qsm snl snr mni p les]) simp_all
qed

lemma map_of_lesion_part:
  "k \<in> set lesion_names \<Longrightarrow>
   map_of (core_result seg qsm snl snr mni @ rest) k = map_of rest k"
  by (rule map_of_core_other) (rule lesion_names_fresh)

lemma map_of_lesion_result:
  "map_of (core_result seg qsm snl snr mni @ lesion_result seg qsm les) ''WMH'' =
     Some (wmh_rule les qsm)"
  "map_of (core_result seg qsm snl snr mni @ lesion_result seg qsm les) ''WM'' =
     Some (wm_rule seg qsm)"
  "map_of (core_result seg qsm snl snr mni @ lesion_result seg qsm les) ''WM_no_lesions'' =
     Some (wm_no_lesions_rule seg les qsm)"
  "map_of (core_result seg qsm snl snr mni @ lesion_result seg qsm les) ''Diff-WM'' =
     Some (fsub (wm_rule seg qsm) (wmh_rule les qsm))"
  "map_of (core_result seg qsm snl snr mni @ lesion_result seg qsm les) ''Diff-WM-no-lesions'' =
     Some (fsub (wm_no_lesions_rule seg les qsm) (wmh_rule les qsm))"
  by (simp_all add: map_of_lesion_part lesion_names_def lesion_result_def del: map_of_append)

lemma fsub_NaN: "a = NaN \<or> b = NaN \<Longrightarrow> fsub a b = NaN"
  by (cases a; cases b) auto

lemma set_fins: "set (fins vs) = {q. Fin q \<in> set vs}"
  by (induction vs rule: fins.induct) auto

lemma fgt_zero: "fgt v (Fin 0) \<longleftrightarrow> (\<exists>q. v = Fin q \<and> 0 < q)"
  by (cases v) auto

lemma set_positive_values:
  "set (finiteValues mni (positiveOnly m mni)) =
     {q. 0 < q \<and> (\<exists>p \<in> set (indices (shape mni)). m p \<and> vox mni p = Fin q)}"
  by (auto simp: finiteValues_def positiveOnly_def set_fins fgt_zero image_iff) force

lemma demo_given:
  "lesions_given demo_args demo_fs" "lesions_given demo_args_zero demo_fs"
  "\<not> lesions_given demo_args_none demo_fs" "\<not> lesions_given demo_args_missing demo_fs"
  by (simp_all add: lesions_given_def demo_args_def demo_args_zero_def demo_args_none_def
      demo_args_missing_def demo_isfile)

lemma demo_extract_none:
  "extract_qsm demo_args_none demo_fs =
     Inr (core_result demo_seg demo_qsm demo_sn_left demo_sn_right demo_mni)"
  using extract_qsm_ok[of demo_fs demo_args_none demo_seg demo_qsm demo_sn_left demo_sn_right
      demo_mni]
  by (simp add: demo_args_none_def demo_args_def demo_loads demo_shapes lesions_given_def)

lemma demo_extract_zero:
  "extract_qsm demo_args_zero demo_fs =
     Inr (core_result demo_seg demo_qsm demo_sn_left demo_sn_right demo_mni @
          lesion_result demo_seg demo_qsm demo_no_lesions)"
  using extract_qsm_ok[of demo_fs demo_args_zero demo_seg demo_qsm demo_sn_left demo_sn_right
      demo_mni "''zero.nii''" demo_no_lesions]
  by (simp add: demo_args_zero_def demo_args_def demo_loads demo_shapes lesions_given_def
      demo_isfile)

lemma main_Inr: "extract_qsm a fs = Inr res \<Longrightarrow> main a fs = Inr (write_csv a res fs)"
  by (simp add: main_def)

lemma main_Inl: "extract_qsm a fs = Inl e \<Longrightarrow> main a fs = Inl e"
  by (simp add: main_def)

lemma zero_mask_rules:
  assumes "list_all (\<lambda>q. vox les q = Fin 0) (indices (shape les))" "shape les = shape qsm"
  shows "wmh_rule les qsm = NaN" "wm_no_lesions_rule seg les qsm = wm_rule seg qsm"
proof -
  have z: "vox les q = Fin 0" if "q \<in> set (indices (shape qsm))" for q
    using assms that by (simp add: list_all_iff)
  have "filter (equals les 1) (indices (shape qsm)) = []"
    by (simp add: filter_empty_conv equals_def z)
  then show "wmh_rule les qsm = NaN"
    by (simp add: wmh_rule_def finiteValues_def median_def)
  have "filter (\<lambda>p. isAnyOf seg [2, 41] p \<and> equals les 0 p) (indices (shape qsm)) =
        filter (isAnyOf seg [2, 41]) (indices (shape qsm))"
    by (rule filter_cong) (simp_all add: equals_def z)
  then show "wm_no_lesions_rule seg les qsm = wm_rule seg qsm"
    by (simp add: wm_no_lesions_rule_def wm_rule_def finiteValues_def)
qed

lemma demo_core:
  "core_result demo_seg demo_qsm demo_sn_left demo_sn_right demo_mni =
     [(''Left-Thalamus-Proper'', Fin (11 / 2)), (''Left-Caudate'', NaN), (''Left-Putamen'', NaN),
      (''Left-Pallidum'', NaN), (''Left-Hippocampus'', NaN), (''Left-Amygdala'', NaN),
      (''Left-Accumbens-area'', NaN), (''Right-Thalamus-Proper'', NaN), (''Right-Caudate'', NaN),
      (''Right-Putamen'', NaN), (''Right-Pallidum'', NaN), (''Right-Hippocampus'', NaN),
      (''Right-Amygdala'', NaN), (''Right-Accumbens-area'', NaN),
      (''SN_L'', Fin 5), (''SN_R'', NaN)]"
  by code_simp

lemma demo_lesion:
  "lesion_result demo_seg demo_qsm demo_lesions =
     [(''WMH'', Fin 2), (''WM'', Fin 6), (''WM_no_lesions'', Fin (13 / 2)),
      (''Diff-WM'', Fin 4), (''Diff-WM-no-lesions'', Fin (9 / 2))]"
  by code_simp

lemma extract_qsm_keys:
  assumes "extract_qsm a fs = Inr res"
  shows "map fst res =
     base_names @ [''SN_L'', ''SN_R''] @ (if lesions_given a fs then lesion_names else [])"
proof -
  from assms obtain seg qsm snl snr mni rest where
    r: "res = core_result seg qsm snl snr mni @ rest"
    and d: "(\<not> lesions_given a fs \<and> rest = []) \<or>
     (\<exists>p les. lesions_mask a = Some p \<and> lesions_given a fs \<and> nib_load fs p = Inr les \<and>
        mask_fits (shape les) (shape qsm) \<and> rest = lesion_result seg qsm les)"
    by (rule extract_qsm_InrD)
  from d have "map fst rest = (if lesions_given a fs then lesion_names else [])"
    by (auto simp: map_fst_lesion)
  then show ?thesis by (simp add: r map_fst_core)
qed



lemma write_csv_other: "p \<noteq> output_csv a \<Longrightarrow> write_csv a res fs p = fs p"
  by (simp add: write_csv_def append_rows_def Let_def split: option.splits)

lemma rows_write_csv_new:
  "fs (output_csv a) = None \<Longrightarrow>
   map_option rows (write_csv a res fs (output_csv a)) = Some [header res, row a res]"
  by (simp add: write_csv_def append_rows_def isfile_def)

lemma rows_write_csv_old:
  "fs (output_csv a) = Some f \<Longrightarrow>
   map_option rows (write_csv a res fs (output_csv a)) = Some (rows f @ [row a res])"
  by (simp add: write_csv_def append_rows_def isfile_def)

lemma nib_load_write_csv:
  "p \<noteq> output_csv a \<Longrightarrow> nib_load (write_csv a res fs) p = nib_load fs p"
  by (simp add: nib_load_def write_csv_other)

lemma isfile_write_csv:
  "p \<noteq> output_csv a \<Longrightarrow> isfile (write_csv a res fs) p = isfile fs p"
  by (simp add: isfile_def write_csv_other)

section \<open>The claims\<close>

text \<open>
  C1. For every label code of the base catalog, the value a successful run stores under the
  region's name is the median of the non-NaN native-space QSM values at exactly the voxels
  of the label that survive the erosion: the voxel and its four in-plane neighbours carry
  the label, neighbours outside the slice counting as unlabelled, each axial slice on its
  own. The value is NaN when no such value is left.
\<close>

theorem base_region_median:
  assumes "extract_qsm a fs = Inr res"
    and "nib_load fs (segmentation a) = Inr labelVolume"
    and "nib_load fs (qsm_in_T1 a) = Inr qsm"
    and "(code, name) \<in> set regions_dic"
  shows "map_of res name =
     Some (median (finiteValues qsm
             (erode2D (shape labelVolume) (equals labelVolume (of_int code)))))"
proof -
  from assms(1) obtain seg q snl snr mni rest where
    "nib_load fs (segmentation a) = Inr seg" "nib_load fs (qsm_in_T1 a) = Inr q"
    "res = core_result seg q snl snr mni @ rest"
    by (rule extract_qsm_InrD)
  with assms(2,3) have "res = core_result labelVolume qsm snl snr mni @ rest" by simp
  then show ?thesis
    using map_of_core_base[OF assms(4), of labelVolume qsm snl snr mni rest]
    by (simp only: base_rule_def)
qed

theorem base_region_median_witness:
  "lookup_result (extract_qsm demo_args demo_fs) ''Left-Thalamus-Proper'' = Some (Fin (11 / 2))"
proof -
  have v: "median (finiteValues demo_qsm (erode2D (shape demo_seg) (equals demo_seg (of_int 10))))
           = Fin (11 / 2)"
    by code_simp
  have "map_of (core_result demo_seg demo_qsm demo_sn_left demo_sn_right demo_mni @
          lesion_result demo_seg demo_qsm demo_lesions) ''Left-Thalamus-Proper'' =
        Some (median (finiteValues demo_qsm (erode2D (shape demo_seg) (equals demo_seg (of_int 10)))))"
    by (rule base_region_median[OF demo_extract, of _ _ 10])
       (simp_all add: demo_args_def demo_loads regions_dic_def)
  then show ?thesis by (simp only: lookup_result_def demo_extract v sum.case)
qed

text \<open>
  C2. When the lesion mask is given and read, the value stored under WMH is the median of the
  non-NaN native-space QSM values at the voxels where the lesion mask equals 1. (On the small
  data set the median is 2 and the mean would be 11/3.)
\<close>

theorem wmh_median:
  assumes "extract_qsm a fs = Inr res"
    and "lesions_given a fs"
    and "lesions_mask a = Some p"
    and "nib_load fs p = Inr lesion_mask"
    and "nib_load fs (qsm_in_T1 a) = Inr qsm"
  shows "map_of res ''WMH'' = Some (median (finiteValues qsm (equals lesion_mask 1)))"
proof -
  from assms(1,2) obtain seg q snl snr mni p' les where
    "nib_load fs (qsm_in_T1 a) = Inr q" "lesions_mask a = Some p'" "nib_load fs p' = Inr les"
    "res = core_result seg q snl snr mni @ lesion_result seg q les"
    by (rule extract_qsm_lesionsD)
  with assms(3,4,5) have "res = core_result seg qsm snl snr mni @ lesion_result seg qsm lesion_mask"
    by simp
  then show ?thesis by (simp only: map_of_lesion_result wmh_rule_def)
qed

theorem wmh_median_witness:
  "lookup_result (extract_qsm demo_args demo_fs) ''WMH'' = Some (Fin 2) \<and>
   mean (finiteValues demo_qsm (equals demo_lesions 1)) = Fin (11 / 3)"
proof -
  have v: "median (finiteValues demo_qsm (equals demo_lesions 1)) = Fin 2"
    by code_simp
  have m: "mean (finiteValues demo_qsm (equals demo_lesions 1)) = Fin (11 / 3)"
    by code_simp
  have "map_of (core_result demo_seg demo_qsm demo_sn_left demo_sn_right demo_mni @
          lesion_result demo_seg demo_qsm demo_lesions) ''WMH'' =
        Some (median (finiteValues demo_qsm (equals demo_lesions 1)))"
    by (rule wmh_median[OF demo_extract, of "''wmh.nii''"])
       (simp_all add: demo_args_def demo_loads lesions_given_def demo_isfile)
  then show ?thesis by (simp only: lookup_result_def demo_extract v m sum.case simp_thms)
qed

text \<open>
  C5. When the lesion-dependent regions are computed, the value stored under Diff-WM is the
  value stored under WM minus the value stored under WMH, the value stored under
  Diff-WM-no-lesions is the value stored under WM_no_lesions minus the value stored under
  WMH, and each difference is NaN as soon as one of its operands is NaN.
\<close>

theorem derived_differences:
  assumes "extract_qsm a fs = Inr res" and "lesions_given a fs"
  shows "\<exists>wm wmh wmnl.
     map_of res ''WM'' = Some wm \<and> map_of res ''WMH'' = Some wmh \<and>
     map_of res ''WM_no_lesions'' = Some wmnl \<and>
     map_of res ''Diff-WM'' = Some (fsub wm wmh) \<and>
     map_of res ''Diff-WM-no-lesions'' = Some (fsub wmnl wmh) \<and>
     (wm = NaN \<or> wmh = NaN \<longrightarrow> fsub wm wmh = NaN) \<and>
     (wmnl = NaN \<or> wmh = NaN \<longrightarrow> fsub wmnl wmh = NaN)"
proof -
  from assms obtain seg qsm snl snr mni les where
    res: "res = core_result seg qsm snl snr mni @ lesion_result seg qsm les"
    by (rule extract_qsm_lesionsD[where thesis = thesis])
  show ?thesis
    unfolding res map_of_lesion_result using fsub_NaN by blast
qed

theorem derived_differences_witness:
  "lookup_result (extract_qsm demo_args demo_fs) ''Diff-WM'' = Some (Fin 4) \<and>
   lookup_result (extract_qsm demo_args demo_fs) ''Diff-WM-no-lesions'' = Some (Fin (9 / 2))"
proof -
  let ?res = "core_result demo_seg demo_qsm demo_sn_left demo_sn_right demo_mni @
          lesion_result demo_seg demo_qsm demo_lesions"
  have g: "lesions_given demo_args demo_fs"
    by (simp add: lesions_given_def demo_args_def demo_isfile)
  have v: "wm_rule demo_seg demo_qsm = Fin 6" "wmh_rule demo_lesions demo_qsm = Fin 2"
    "wm_no_lesions_rule demo_seg demo_lesions demo_qsm = Fin (13 / 2)"
    by code_simp+
  from derived_differences[OF demo_extract g] obtain wm wmh wmnl where
    s: "map_of ?res ''WM'' = Some wm" "map_of ?res ''WMH'' = Some wmh"
      "map_of ?res ''WM_no_lesions'' = Some wmnl"
    and d: "map_of ?res ''Diff-WM'' = Some (fsub wm wmh)"
      "map_of ?res ''Diff-WM-no-lesions'' = Some (fsub wmnl wmh)"
    by blast
  from s have e: "wm = Fin 6" "wmh = Fin 2" "wmnl = Fin (13 / 2)"
    by (simp_all add: map_of_lesion_result(1-3) v del: map_of_append)
  have "fsub wm wmh = Fin 4" "fsub wmnl wmh = Fin (9 / 2)"
    by (simp_all add: e)
  with d have "map_of ?res ''Diff-WM'' = Some (Fin 4)"
    "map_of ?res ''Diff-WM-no-lesions'' = Some (Fin (9 / 2))"
    by (simp_all only:)
  then show ?thesis by (simp only: lookup_result_def demo_extract sum.case simp_thms)
qed

text \<open>
  C7. The values stored under SN_L and SN_R are the medians of the template-space QSM values
  at the voxels where the left, respectively right, probability mask is positive and the
  QSM value is strictly positive. Whatever the mask, the values kept are exactly the strictly
  positive ones inside it: a zero, a negative value and a NaN are all dropped.
\<close>

theorem sn_positive_only:
  assumes "extract_qsm a fs = Inr res"
    and "nib_load fs (sn_mask_left a) = Inr sn_left"
    and "nib_load fs (sn_mask_right a) = Inr sn_right"
    and "nib_load fs (qsm_in_mni152 a) = Inr mni"
  shows "map_of res ''SN_L'' =
           Some (median (finiteValues mni (positiveOnly (\<lambda>p. fgt (vox sn_left p) (Fin 0)) mni))) \<and>
         map_of res ''SN_R'' =
           Some (median (finiteValues mni (positiveOnly (\<lambda>p. fgt (vox sn_right p) (Fin 0)) mni))) \<and>
         set (finiteValues mni (positiveOnly m mni)) =
           {q. 0 < q \<and> (\<exists>p \<in> set (indices (shape mni)). m p \<and> vox mni p = Fin q)}"
proof -
  from assms(1) obtain seg qsm snl snr mn rest where
    "nib_load fs (sn_mask_left a) = Inr snl" "nib_load fs (sn_mask_right a) = Inr snr"
    "nib_load fs (qsm_in_mni152 a) = Inr mn"
    "res = core_result seg qsm snl snr mn @ rest"
    by (rule extract_qsm_InrD)
  with assms(2-4) have res: "res = core_result seg qsm sn_left sn_right mni @ rest" by simp
  have l: "map_of res ''SN_L'' =
           Some (median (finiteValues mni (positiveOnly (\<lambda>p. fgt (vox sn_left p) (Fin 0)) mni)))"
    unfolding res by (simp only: map_of_core_sn sn_rule_def)
  have r: "map_of res ''SN_R'' =
           Some (median (finiteValues mni (positiveOnly (\<lambda>p. fgt (vox sn_right p) (Fin 0)) mni)))"
    unfolding res by (simp only: map_of_core_sn sn_rule_def)
  from l r set_positive_values[of mni m] show ?thesis by (intro conjI)
qed

theorem sn_positive_only_witness:
  "lookup_result (extract_qsm demo_args demo_fs) ''SN_L'' = Some (Fin 5) \<and>
   map (vox demo_mni) (indices (shape demo_mni)) = [Fin 3, Fin (- 1), Fin 0, Fin 7] \<and>
   finiteValues demo_mni (positiveOnly (\<lambda>p. fgt (vox demo_sn_left p) (Fin 0)) demo_mni) = [3, 7]"
proof -
  have v: "median (finiteValues demo_mni
             (positiveOnly (\<lambda>p. fgt (vox demo_sn_left p) (Fin 0)) demo_mni)) = Fin 5"
    by code_simp
  have w: "map (vox demo_mni) (indices (shape demo_mni)) = [Fin 3, Fin (- 1), Fin 0, Fin 7]"
    by code_simp
  have u: "finiteValues demo_mni (positiveOnly (\<lambda>p. fgt (vox demo_sn_left p) (Fin 0)) demo_mni)
           = [3, 7]"
    by code_simp
  have "map_of (core_result demo_seg demo_qsm demo_sn_left demo_sn_right demo_mni @
          lesion_result demo_seg demo_qsm demo_lesions) ''SN_L'' =
        Some (median (finiteValues demo_mni
             (positiveOnly (\<lambda>p. fgt (vox demo_sn_left p) (Fin 0)) demo_mni)))"
    by (rule sn_positive_only[THEN conjunct1, OF demo_extract, of _ demo_sn_right])
       (simp_all add: demo_args_def demo_loads)
  then have "lookup_result (extract_qsm demo_args demo_fs) ''SN_L'' = Some (Fin 5)"
    by (simp only: lookup_result_def demo_extract v sum.case)
  with w u show ?thesis by (intro conjI)
qed

text \<open>
  C10. The keys of the result of a successful run are the fourteen names of the base catalog
  in their fixed order, then SN_L and SN_R, then either all five lesion-dependent keys in
  the order WMH, WM, WM_no_lesions, Diff-WM, Diff-WM-no-lesions (when the lesion mask is
  given and is a file) or none of them.
\<close>

theorem result_keys:
  assumes "extract_qsm a fs = Inr res"
  shows "map fst res =
     base_names @ [''SN_L'', ''SN_R''] @ (if lesions_given a fs then lesion_names else [])"
  using assms by (rule extract_qsm_keys)

theorem result_keys_witness:
  "map_sum id (map fst) (extract_qsm demo_args demo_fs) =
     Inr [''Left-Thalamus-Proper'', ''Left-Caudate'', ''Left-Putamen'', ''Left-Pallidum'',
          ''Left-Hippocampus'', ''Left-Amygdala'', ''Left-Accumbens-area'',
          ''Right-Thalamus-Proper'', ''Right-Caudate'', ''Right-Putamen'', ''Right-Pallidum'',
          ''Right-Hippocampus'', ''Right-Amygdala'', ''Right-Accumbens-area'',
          ''SN_L'', ''SN_R'',
          ''WMH'', ''WM'', ''WM_no_lesions'', ''Diff-WM'', ''Diff-WM-no-lesions''] \<and>
   map_sum id (map fst) (extract_qsm demo_args_none demo_fs) =
     Inr [''Left-Thalamus-Proper'', ''Left-Caudate'', ''Left-Putamen'', ''Left-Pallidum'',
          ''Left-Hippocampus'', ''Left-Amygdala'', ''Left-Accumbens-area'',
          ''Right-Thalamus-Proper'', ''Right-Caudate'', ''Right-Putamen'', ''Right-Pallidum'',
          ''Right-Hippocampus'', ''Right-Amygdala'', ''Right-Accumbens-area'',
          ''SN_L'', ''SN_R'']"
  using result_keys[OF demo_extract] result_keys[OF demo_extract_none]
  by (simp add: demo_extract demo_extract_none demo_given base_names_def lesion_names_def)

text \<open>
  C3. When no lesion mask is named, or the name is empty or is not a file, and the five
  required volumes are read with matching shapes, the run succeeds: the result is the
  base catalog followed by SN_L and SN_R, each with its value, none of the five
  lesion-dependent keys is in it (they are absent, not NaN), and the row is written.
\<close>

theorem no_lesion_mask:
  assumes "nib_load fs (segmentation a) = Inr seg" and "nib_load fs (qsm_in_T1 a) = Inr qsm"
    and "nib_load fs (sn_mask_left a) = Inr snl" and "nib_load fs (sn_mask_right a) = Inr snr"
    and "nib_load fs (qsm_in_mni152 a) = Inr mni"
    and "shape seg = shape qsm" and "shape snl = shape mni" and "shape snr = shape mni"
    and "\<not> lesions_given a fs"
  shows "\<exists>res. extract_qsm a fs = Inr res \<and> main a fs = Inr (write_csv a res fs) \<and>
     res = core_result seg qsm snl snr mni \<and>
     map fst res = base_names @ [''SN_L'', ''SN_R''] \<and>
     (\<forall>k \<in> set lesion_names. k \<notin> set (map fst res) \<and> map_of res k = None)"
proof -
  let ?res = "core_result seg qsm snl snr mni"
  have e: "extract_qsm a fs = Inr ?res"
    using assms(6-9)
    by (auto simp: extract_qsm_eq[OF assms(1-5)] mask_fits_refl lesions_given_def
        split: option.splits)
  have k: "\<forall>k \<in> set lesion_names. k \<notin> set (map fst ?res) \<and> map_of ?res k = None"
  proof
    fix k assume "k \<in> set lesion_names"
    then have a: "k \<notin> set (map fst ?res)"
      using lesion_names_fresh unfolding map_fst_core by blast
    then have "map_of ?res k = None" by (simp add: map_of_eq_None_iff)
    with a show "k \<notin> set (map fst ?res) \<and> map_of ?res k = None" ..
  qed
  from e main_Inr[OF e] map_fst_core[of seg qsm snl snr mni] k show ?thesis by blast
qed

theorem no_lesion_mask_witness:
  "extract_qsm demo_args_none demo_fs =
     Inr (core_result demo_seg demo_qsm demo_sn_left demo_sn_right demo_mni) \<and>
   extract_qsm demo_args_missing demo_fs =
     Inr (core_result demo_seg demo_qsm demo_sn_left demo_sn_right demo_mni) \<and>
   lookup_result (extract_qsm demo_args_missing demo_fs) ''WMH'' = None \<and>
   lookup_result (extract_qsm demo_args_missing demo_fs) ''Diff-WM'' = None"
proof -
  have s: "shape demo_seg = shape demo_qsm" "shape demo_sn_left = shape demo_mni"
    "shape demo_sn_right = shape demo_mni"
    by (simp_all add: demo_shapes)
  have n: "nib_load demo_fs (segmentation demo_args_none) = Inr demo_seg"
    "nib_load demo_fs (qsm_in_T1 demo_args_none) = Inr demo_qsm"
    "nib_load demo_fs (sn_mask_left demo_args_none) = Inr demo_sn_left"
    "nib_load demo_fs (sn_mask_right demo_args_none) = Inr demo_sn_right"
    "nib_load demo_fs (qsm_in_mni152 demo_args_none) = Inr demo_mni"
    by (simp_all add: demo_args_none_def demo_args_def demo_loads)
  have m: "nib_load demo_fs (segmentation demo_args_missing) = Inr demo_seg"
    "nib_load demo_fs (qsm_in_T1 demo_args_missing) = Inr demo_qsm"
    "nib_load demo_fs (sn_mask_left demo_args_missing) = Inr demo_sn_left"
    "nib_load demo_fs (sn_mask_right demo_args_missing) = Inr demo_sn_right"
    "nib_load demo_fs (qsm_in_mni152 demo_args_missing) = Inr demo_mni"
    by (simp_all add: demo_args_missing_def demo_args_def demo_loads)
  from no_lesion_mask[OF n s demo_given(3)] no_lesion_mask[OF m s demo_given(4)]
  show ?thesis
    by (auto simp: lookup_result_def lesion_names_def)
qed

text \<open>
  C4. When the lesion mask is given, has the shape of the native-space QSM volume and is zero
  at every voxel, the key WMH is in the result with the value NaN (it is not absent), and WM
  and WM_no_lesions have the same value.
\<close>

theorem zero_lesion_mask:
  assumes "extract_qsm a fs = Inr res"
    and "lesions_given a fs"
    and "lesions_mask a = Some p"
    and "nib_load fs p = Inr lesion_mask"
    and "nib_load fs (qsm_in_T1 a) = Inr qsm"
    and "shape lesion_mask = shape qsm"
    and "list_all (\<lambda>q. vox lesion_mask q = Fin 0) (indices (shape lesion_mask))"
  shows "map_of res ''WMH'' = Some NaN \<and>
     (\<exists>v. map_of res ''WM'' = Some v \<and> map_of res ''WM_no_lesions'' = Some v)"
proof -
  from assms(1,2) obtain seg qsm' snl snr mni p' les where
    "nib_load fs (qsm_in_T1 a) = Inr qsm'"
    "lesions_mask a = Some p'" "nib_load fs p' = Inr les"
    "res = core_result seg qsm' snl snr mni @ lesion_result seg qsm' les"
    by (rule extract_qsm_lesionsD)
  with assms(3-5) have
    r: "res = core_result seg qsm snl snr mni @ lesion_result seg qsm lesion_mask"
    by simp
  show ?thesis
    unfolding r map_of_lesion_result zero_mask_rules[OF assms(7,6)] by simp
qed

theorem zero_lesion_mask_witness:
  "lookup_result (extract_qsm demo_args_zero demo_fs) ''WM'' = Some (Fin 6) \<and>
   lookup_result (extract_qsm demo_args_zero demo_fs) ''WM_no_lesions'' = Some (Fin 6) \<and>
   lookup_result (extract_qsm demo_args_zero demo_fs) ''Diff-WM'' = Some NaN"
proof -
  let ?res = "core_result demo_seg demo_qsm demo_sn_left demo_sn_right demo_mni @
          lesion_result demo_seg demo_qsm demo_no_lesions"
  have z: "list_all (\<lambda>q. vox demo_no_lesions q = Fin 0) (indices (shape demo_no_lesions))"
    by code_simp
  have l: "lesions_mask demo_args_zero = Some ''zero.nii''"
    "nib_load demo_fs ''zero.nii'' = Inr demo_no_lesions"
    "nib_load demo_fs (qsm_in_T1 demo_args_zero) = Inr demo_qsm"
    "shape demo_no_lesions = shape demo_qsm"
    by (simp_all add: demo_args_zero_def demo_args_def demo_loads demo_shapes)
  have v: "wm_rule demo_seg demo_qsm = Fin 6" by code_simp
  have "map_of ?res ''WMH'' = Some NaN \<and>
     (\<exists>v. map_of ?res ''WM'' = Some v \<and> map_of ?res ''WM_no_lesions'' = Some v)"
    by (rule zero_lesion_mask[OF demo_extract_zero demo_given(2) l z])
  then have "map_of ?res ''WMH'' = Some NaN" "map_of ?res ''WM'' = Some (Fin 6)"
    "map_of ?res ''WM_no_lesions'' = Some (Fin 6)"
    by (auto simp: map_of_lesion_result(2) v simp del: map_of_append)
  moreover from this have "map_of ?res ''Diff-WM'' = Some NaN"
    by (simp add: map_of_lesion_result del: map_of_append)
  ultimately show ?thesis
    by (simp only: lookup_result_def demo_extract_zero sum.case simp_thms)
qed

text \<open>
  On the small data set with the all-zero lesion mask the key WMH is present, with the value
  NaN: line 92 stores it whenever the lesion branch runs.
\<close>

theorem zero_lesion_mask_counterexample:
  "lookup_result (extract_qsm demo_args_zero demo_fs) ''WMH'' = Some NaN \<and>
   lookup_result (extract_qsm demo_args_zero demo_fs) ''WMH'' \<noteq> None"
proof -
  have "list_all (\<lambda>q. vox demo_no_lesions q = Fin 0) (indices (shape demo_no_lesions))"
    by code_simp
  then have "wmh_rule demo_no_lesions demo_qsm = NaN"
    by (rule zero_mask_rules) (simp add: demo_shapes)
  then show ?thesis
    by (simp add: lookup_result_def demo_extract_zero map_of_lesion_result del: map_of_append)
qed

text \<open>
  The shape is part of the statement. A lesion mask with an axis of length 0 has no voxel, so
  it is zero at every voxel, and the indexing accepts it against a QSM volume of one plane:
  the run on \<^term>\<open>demo_args_thin\<close> succeeds, WM is the median 2 of the white matter, and
  the mask of line 107, broadcast against the empty lesion mask, selects nothing, so
  WM_no_lesions is NaN.
\<close>

theorem zero_lesion_mask_empty_mask:
  "nib_load demo_fs ''empty.nii'' = Inr demo_empty \<and> shape demo_empty = (0, 4, 2) \<and>
   shape thin_qsm = (1, 4, 2) \<and>
   lookup_result (extract_qsm demo_args_thin demo_fs) ''WMH'' = Some NaN \<and>
   lookup_result (extract_qsm demo_args_thin demo_fs) ''WM'' = Some (Fin 2) \<and>
   lookup_result (extract_qsm demo_args_thin demo_fs) ''WM_no_lesions'' = Some NaN"
proof -
  have "lookup_result (extract_qsm demo_args_thin demo_fs) ''WMH'' = Some NaN"
    "lookup_result (extract_qsm demo_args_thin demo_fs) ''WM'' = Some (Fin 2)"
    "lookup_result (extract_qsm demo_args_thin demo_fs) ''WM_no_lesions'' = Some NaN"
    by code_simp+
  then show ?thesis by (simp add: demo_loads demo_shapes)
qed

text \<open>
  C8. When the five required volumes are read and a mask does not fit the volume it samples,
  that is, along some axis its length is neither 0 nor the length of the volume
  (segmentation and native-space QSM, either substantia-nigra mask and template-space QSM,
  or the given lesion mask and native-space QSM), the boolean-mask indexing raises IndexError
  instead of returning values, the run fails with that error and nothing is written.
\<close>

theorem shape_mismatch_fatal:
  assumes "nib_load fs (segmentation a) = Inr seg" and "nib_load fs (qsm_in_T1 a) = Inr qsm"
    and "nib_load fs (sn_mask_left a) = Inr snl" and "nib_load fs (sn_mask_right a) = Inr snr"
    and "nib_load fs (qsm_in_mni152 a) = Inr mni"
    and "\<not> mask_fits (shape seg) (shape qsm) \<or> \<not> mask_fits (shape snl) (shape mni) \<or>
         \<not> mask_fits (shape snr) (shape mni) \<or>
         (lesions_given a fs \<and> lesions_mask a = Some p \<and> nib_load fs p = Inr les \<and>
          \<not> mask_fits (shape les) (shape qsm))"
  shows "extract_qsm a fs = Inl IndexError \<and> main a fs = Inl IndexError"
proof -
  have "extract_qsm a fs = Inl IndexError"
    using assms by (rule extract_qsm_unfit)
  then show ?thesis by (simp add: main_Inl)
qed

theorem shape_mismatch_fatal_witness:
  "\<not> mask_fits (shape demo_seg) (shape demo_mni) \<and>
   main demo_args_bad_qsm demo_fs = Inl IndexError \<and>
   \<not> mask_fits (shape demo_sn_left) (shape demo_qsm) \<and>
   main demo_args_bad_lesions demo_fs = Inl IndexError"
proof -
  have f: "\<not> mask_fits (shape demo_seg) (shape demo_mni)"
    "\<not> mask_fits (shape demo_sn_left) (shape demo_qsm)"
    by (simp_all add: demo_shapes mask_fits_def axis_fits_def)
  have 1: "extract_qsm demo_args_bad_qsm demo_fs = Inl IndexError \<and>
           main demo_args_bad_qsm demo_fs = Inl IndexError"
    by (rule shape_mismatch_fatal[of _ _ demo_seg demo_mni demo_sn_left demo_sn_right demo_mni])
       (simp_all add: demo_args_bad_qsm_def demo_args_def demo_loads f)
  have 2: "extract_qsm demo_args_bad_lesions demo_fs = Inl IndexError \<and>
           main demo_args_bad_lesions demo_fs = Inl IndexError"
    by (rule shape_mismatch_fatal[of _ _ demo_seg demo_qsm demo_sn_left demo_sn_right demo_mni
          "''snl.nii''" demo_sn_left])
       (simp_all add: demo_args_bad_lesions_def demo_args_def demo_loads f
          lesions_given_def demo_isfile)
  from 1 2 f show ?thesis by simp
qed

text \<open>
  A difference of shape alone does not stop the run. The segmentation of
  \<^term>\<open>demo_args_empty_seg\<close> has the shape (0, 4, 2) and the QSM volume (3, 4, 2): the
  indexing accepts the mask, every region of the catalog selects nothing and is stored as
  NaN, the substantia nigra is sampled as usual and the row is written. With the same empty
  volume as the lesion mask, the indexing of line 90 accepts it too, and the run fails only
  at line 107, where the two masks do not broadcast, with a ValueError.
\<close>

theorem shape_mismatch_fatal_counterexample:
  "nib_load demo_fs (segmentation demo_args_empty_seg) = Inr demo_empty \<and>
   nib_load demo_fs (qsm_in_T1 demo_args_empty_seg) = Inr demo_qsm \<and>
   shape demo_empty = (0, 4, 2) \<and> shape demo_qsm = (3, 4, 2) \<and>
   shape demo_empty \<noteq> shape demo_qsm \<and>
   lookup_result (extract_qsm demo_args_empty_seg demo_fs) ''Left-Thalamus-Proper'' = Some NaN \<and>
   lookup_result (extract_qsm demo_args_empty_seg demo_fs) ''SN_L'' = Some (Fin 5) \<and>
   lines_after (main demo_args_empty_seg demo_fs) ''out.csv'' \<noteq> None \<and>
   extract_qsm demo_args_empty_lesions demo_fs = Inl ValueError"
proof -
  have "lookup_result (extract_qsm demo_args_empty_seg demo_fs) ''Left-Thalamus-Proper'' =
      Some NaN"
    "lookup_result (extract_qsm demo_args_empty_seg demo_fs) ''SN_L'' = Some (Fin 5)"
    "lines_after (main demo_args_empty_seg demo_fs) ''out.csv'' \<noteq> None"
    "extract_qsm demo_args_empty_lesions demo_fs = Inl ValueError"
    by code_simp+
  then show ?thesis
    by (simp add: demo_args_empty_seg_def demo_args_none_def demo_args_def demo_loads
        demo_shapes)
qed



text \<open>
  C9. After a successful extraction the run writes to the output path and to no other: when
  the file is not there yet, exactly the header line and one data row; when it is there,
  whatever it holds, exactly one data row after its lines, with no header and no look at the
  lines it has. The header is subject, session, the fourteen base names in catalog order,
  SN_L, SN_R and then, when they are computed, the five lesion-dependent names; the row has
  the two identifiers and the values in the same order.
\<close>

theorem csv_append:
  assumes "extract_qsm a fs = Inr res"
  shows "main a fs = Inr (write_csv a res fs) \<and>
     (fs (output_csv a) = None \<longrightarrow>
        lines_after (main a fs) (output_csv a) = Some [header res, row a res]) \<and>
     (\<forall>f. fs (output_csv a) = Some f \<longrightarrow>
        lines_after (main a fs) (output_csv a) = Some (rows f @ [row a res])) \<and>
     (\<forall>p. p \<noteq> output_csv a \<longrightarrow> write_csv a res fs p = fs p) \<and>
     header res =
       map S ([''subject'', ''session''] @ base_names @ [''SN_L'', ''SN_R''] @
              (if lesions_given a fs then lesion_names else [])) \<and>
     row a res = [I (arg_id a), I (ses a)] @ map (\<lambda>(name, v). F v) res \<and>
     length (row a res) = length (header res)"
proof -
  have m: "main a fs = Inr (write_csv a res fs)"
    using assms by (rule main_Inr)
  have h: "header res =
       map S ([''subject'', ''session''] @ base_names @ [''SN_L'', ''SN_R''] @
              (if lesions_given a fs then lesion_names else []))"
    by (simp add: header_def extract_qsm_keys[OF assms])
  have r: "row a res = [I (arg_id a), I (ses a)] @ map (\<lambda>(name, v). F v) res"
    by (simp add: row_def split_def)
  have l: "length (row a res) = length (header res)"
    by (simp add: row_def header_def)
  from h r l show ?thesis
    by (simp add: m lines_after_def rows_write_csv_new rows_write_csv_old write_csv_other)
qed

theorem csv_append_witness:
  "lines_after (main demo_args demo_fs) ''out.csv'' =
     Some [[S ''subject'', S ''session'',
            S ''Left-Thalamus-Proper'', S ''Left-Caudate'', S ''Left-Putamen'',
            S ''Left-Pallidum'', S ''Left-Hippocampus'', S ''Left-Amygdala'',
            S ''Left-Accumbens-area'', S ''Right-Thalamus-Proper'', S ''Right-Caudate'',
            S ''Right-Putamen'', S ''Right-Pallidum'', S ''Right-Hippocampus'',
            S ''Right-Amygdala'', S ''Right-Accumbens-area'', S ''SN_L'', S ''SN_R'',
            S ''WMH'', S ''WM'', S ''WM_no_lesions'', S ''Diff-WM'', S ''Diff-WM-no-lesions''],
           [I 1001, I 2,
            F (Fin (11 / 2)), F NaN, F NaN, F NaN, F NaN, F NaN, F NaN,
            F NaN, F NaN, F NaN, F NaN, F NaN, F NaN, F NaN, F (Fin 5), F NaN,
            F (Fin 2), F (Fin 6), F (Fin (13 / 2)), F (Fin 4), F (Fin (9 / 2))]] \<and>
   lines_after (then_run (main demo_args demo_fs) demo_args_none) ''out.csv'' =
     Some [[S ''subject'', S ''session'',
            S ''Left-Thalamus-Proper'', S ''Left-Caudate'', S ''Left-Putamen'',
            S ''Left-Pallidum'', S ''Left-Hippocampus'', S ''Left-Amygdala'',
            S ''Left-Accumbens-area'', S ''Right-Thalamus-Proper'', S ''Right-Caudate'',
            S ''Right-Putamen'', S ''Right-Pallidum'', S ''Right-Hippocampus'',
            S ''Right-Amygdala'', S ''Right-Accumbens-area'', S ''SN_L'', S ''SN_R'',
            S ''WMH'', S ''WM'', S ''WM_no_lesions'', S ''Diff-WM'', S ''Diff-WM-no-lesions''],
           [I 1001, I 2,
            F (Fin (11 / 2)), F NaN, F NaN, F NaN, F NaN, F NaN, F NaN,
            F NaN, F NaN, F NaN, F NaN, F NaN, F NaN, F NaN, F (Fin 5), F NaN,
            F (Fin 2), F (Fin 6), F (Fin (13 / 2)), F (Fin 4), F (Fin (9 / 2))],
           [I 1001, I 2,
            F (Fin (11 / 2)), F NaN, F NaN, F NaN, F NaN, F NaN, F NaN,
            F NaN, F NaN, F NaN, F NaN, F NaN, F NaN, F NaN, F (Fin 5), F NaN]]"
proof -
  let ?res = "core_result demo_seg demo_qsm demo_sn_left demo_sn_right demo_mni @
          lesion_result demo_seg demo_qsm demo_lesions"
  let ?core = "core_result demo_seg demo_qsm demo_sn_left demo_sn_right demo_mni"
  let ?fs1 = "write_csv demo_args ?res demo_fs"
  have o: "output_csv demo_args = ''out.csv''" "output_csv demo_args_none = ''out.csv''"
    "arg_id demo_args = 1001" "ses demo_args = 2"
    "arg_id demo_args_none = 1001" "ses demo_args_none = 2"
    by (simp_all add: demo_args_def demo_args_none_def)
  have new: "demo_fs ''out.csv'' = None" by (simp add: demo_fs_def)
  note first = csv_append[OF demo_extract, unfolded o]
  from first new have m1: "main demo_args demo_fs = Inr ?fs1"
    and l1: "lines_after (main demo_args demo_fs) ''out.csv'' =
               Some [header ?res, row demo_args ?res]"
    by blast+
  have e2: "extract_qsm demo_args_none ?fs1 = Inr ?core"
    by (subst extract_qsm_eq[of _ _ demo_seg demo_qsm demo_sn_left demo_sn_right demo_mni])
       (simp_all add: nib_load_write_csv demo_args_none_def demo_args_def demo_loads demo_shapes
          mask_fits_refl)
  from l1 m1 obtain f where f: "?fs1 ''out.csv'' = Some f"
    "rows f = [header ?res, row demo_args ?res]"
    by (auto simp: lines_after_def)
  note second = csv_append[OF e2, unfolded o]
  from second f have l2: "lines_after (main demo_args_none ?fs1) ''out.csv'' =
      Some ([header ?res, row demo_args ?res] @ [row demo_args_none ?core])"
    by metis
  have h: "header ?res = map S ([''subject'', ''session''] @ base_names @ [''SN_L'', ''SN_R''] @
              lesion_names)"
    using first by (simp add: demo_given)
  have r1: "row demo_args ?res = [I 1001, I 2] @ map (\<lambda>(name, v). F v) ?res"
    using first by blast
  have r2: "row demo_args_none ?core = [I 1001, I 2] @ map (\<lambda>(name, v). F v) ?core"
    using second by blast
  have t: "then_run (main demo_args demo_fs) demo_args_none = main demo_args_none ?fs1"
    by (simp add: then_run_def m1)
  have H: "header ?res =
     [S ''subject'', S ''session'',
      S ''Left-Thalamus-Proper'', S ''Left-Caudate'', S ''Left-Putamen'',
      S ''Left-Pallidum'', S ''Left-Hippocampus'', S ''Left-Amygdala'',
      S ''Left-Accumbens-area'', S ''Right-Thalamus-Proper'', S ''Right-Caudate'',
      S ''Right-Putamen'', S ''Right-Pallidum'', S ''Right-Hippocampus'',
      S ''Right-Amygdala'', S ''Right-Accumbens-area'', S ''SN_L'', S ''SN_R'',
      S ''WMH'', S ''WM'', S ''WM_no_lesions'', S ''Diff-WM'', S ''Diff-WM-no-lesions'']"
    unfolding h base_names_def lesion_names_def by simp
  have R1: "row demo_args ?res =
     [I 1001, I 2,
      F (Fin (11 / 2)), F NaN, F NaN, F NaN, F NaN, F NaN, F NaN,
      F NaN, F NaN, F NaN, F NaN, F NaN, F NaN, F NaN, F (Fin 5), F NaN,
      F (Fin 2), F (Fin 6), F (Fin (13 / 2)), F (Fin 4), F (Fin (9 / 2))]"
    using r1 unfolding demo_core demo_lesion by simp
  have R2: "row demo_args_none ?core =
     [I 1001, I 2,
      F (Fin (11 / 2)), F NaN, F NaN, F NaN, F NaN, F NaN, F NaN,
      F NaN, F NaN, F NaN, F NaN, F NaN, F NaN, F NaN, F (Fin 5), F NaN]"
    using r2 unfolding demo_core by simp
  show ?thesis
    unfolding t l1 l2 H R1 R2 by simp
qed

end
